theory Spec2Isabelle
  imports Complex_Main "HOL-Library.Sublist" "HOL-Library.Char_ord"
begin

section \<open>Host platform: thrown values, JSON, strings\<close>

text \<open>
  The program is TypeScript glue around the browser and the inference SDK. What the
  host provides is modelled here, once, on the subset the program exercises.

  A thrown value is seen by the program only through three properties: \<open>name\<close>,
  \<open>message\<close> and \<open>status\<close>. \<open>message = None\<close> stands for a thrown value
  whose message is not a string (reading \<open>.includes\<close> on it raises a TypeError);
  \<open>status = None\<close> stands for a status that is absent or not a number, so that
  \<open>error.status === 503\<close> is false.
\<close>

record js_error =
  name :: string
  message :: "string option"
  status :: "int option"

text \<open>\<open>new Error(msg)\<close>: an error object with a message and no status.\<close>

definition new_Error :: "string \<Rightarrow> js_error" where
  "new_Error msg = \<lparr>name = ''Error'', message = Some msg, status = None\<rparr>"

text \<open>The TypeError the runtime raises when a property of a non-object is used.\<close>

definition TypeError :: "string \<Rightarrow> js_error" where
  "TypeError msg = \<lparr>name = ''TypeError'', message = Some msg, status = None\<rparr>"

definition SyntaxError :: "string \<Rightarrow> js_error" where
  "SyntaxError msg = \<lparr>name = ''SyntaxError'', message = Some msg, status = None\<rparr>"

text \<open>\<open>s.includes(pat)\<close>: \<open>pat\<close> occurs in \<open>s\<close> as a contiguous substring.\<close>

definition str_includes :: "string \<Rightarrow> string \<Rightarrow> bool" where
  "str_includes s pat = sublist pat s"

text \<open>\<open>!s\<close> for a value that is a string, \<open>null\<close> or \<open>undefined\<close>.\<close>

definition falsy :: "string option \<Rightarrow> bool" where
  "falsy s = (s = None \<or> s = Some [])"

text \<open>
  JSON values, on the part of JSON that the records of the program use. Numbers are
  integers (the calories, the macros, the rating, the timestamps), characters are the
  8-bit \<open>char\<close> of HOL (one code unit each, so that \<open>length\<close> is the
  \<open>.length\<close> of the source). An object is the list of its properties in property
  order, which is the order of insertion for keys that are distinct and are not array
  indices, as the keys of the records are.
\<close>

datatype json =
  JNull
| JBool bool
| JNum int
| JStr string
| JArr "json list"
| JObj "(string \<times> json) list"

subsection \<open>JSON.stringify\<close>

text \<open>The decimal digits of a non-negative integer.\<close>

function digits :: "int \<Rightarrow> string" where
  "digits n = (if n < 10 then [char_of (48 + n)] else digits (n div 10) @ [char_of (48 + n mod 10)])"
  by pat_completeness auto
termination
  by (relation "measure nat") auto

declare digits.simps [simp del]

definition show_int :: "int \<Rightarrow> string" where
  "show_int i = (if i < 0 then CHR ''-'' # digits (- i) else digits i)"

definition hex_digit :: "nat \<Rightarrow> char" where
  "hex_digit d = (if d < 10 then char_of (48 + d) else char_of (87 + d))"

definition quote_char :: "char \<Rightarrow> string" where
  "quote_char c =
     (if c = CHR 0x22 then [CHR 0x5C, CHR 0x22]
      else if c = CHR 0x5C then [CHR 0x5C, CHR 0x5C]
      else if c = CHR 0x08 then [CHR 0x5C, CHR ''b'']
      else if c = CHR 0x09 then [CHR 0x5C, CHR ''t'']
      else if c = CHR 0x0A then [CHR 0x5C, CHR ''n'']
      else if c = CHR 0x0C then [CHR 0x5C, CHR ''f'']
      else if c = CHR 0x0D then [CHR 0x5C, CHR ''r'']
      else if c < CHR 0x20 then
        [CHR 0x5C, CHR ''u'', CHR ''0'', CHR ''0'',
         hex_digit (of_char c div 16), hex_digit (of_char c mod 16)]
      else [c])"

definition quote :: "string \<Rightarrow> string" where
  "quote s = CHR 0x22 # concat (map quote_char s) @ [CHR 0x22]"

fun join :: "string \<Rightarrow> string list \<Rightarrow> string" where
  "join sep [] = []"
| "join sep [x] = x"
| "join sep (x # y # ys) = x @ sep @ join sep (y # ys)"

fun JSON_stringify :: "json \<Rightarrow> string" where
  "JSON_stringify JNull = ''null''"
| "JSON_stringify (JBool b) = (if b then ''true'' else ''false'')"
| "JSON_stringify (JNum i) = show_int i"
| "JSON_stringify (JStr s) = quote s"
| "JSON_stringify (JArr xs) = ''['' @ join '','' (map JSON_stringify xs) @ '']''"
| "JSON_stringify (JObj kvs) =
     ''{'' @ join '','' (map (\<lambda>(k, v). quote k @ '':'' @ JSON_stringify v) kvs) @ ''}''"

declare JSON_stringify.simps [simp del]

subsection \<open>JSON.parse\<close>

text \<open>
  \<open>JSON.parse\<close> is modelled on the same part of JSON: it reads what
  \<open>JSON.stringify\<close> above writes, with white space between the tokens. It
  refuses a number with a fraction or an exponent and a \<open>\u\<close> escape above
  \<open>00FF\<close>, which have no counterpart among the values above; it keeps both
  members of a repeated key, where the host keeps the last; it reads an integer of any
  size exactly, where the host rounds to a double beyond \<open>2 ^ 53\<close>; and every
  refusal is the same \<open>SyntaxError\<close>, where the message of the host names the
  offending token. The general statements below therefore take the outcome of
  \<open>JSON.parse\<close> on a stored or received text as a hypothesis; the one text
  they have the model read is the literal \<open>[]\<close> of the source. Beyond that the
  model is evaluated only in the examples, on texts that \<open>JSON.stringify\<close>
  wrote from records with distinct keys and integers below \<open>2 ^ 53\<close>, and on
  the texts \<open>{}\<close> and \<open>{not json\<close>.
\<close>

definition is_ws :: "char \<Rightarrow> bool" where
  "is_ws c = (c = CHR 0x20 \<or> c = CHR 0x09 \<or> c = CHR 0x0A \<or> c = CHR 0x0D)"

definition skip_ws :: "string \<Rightarrow> string" where
  "skip_ws s = dropWhile is_ws s"

definition is_digit :: "char \<Rightarrow> bool" where
  "is_digit c = (CHR ''0'' \<le> c \<and> c \<le> CHR ''9'')"

definition hex_val :: "char \<Rightarrow> nat option" where
  "hex_val c =
     (if CHR ''0'' \<le> c \<and> c \<le> CHR ''9'' then Some (of_char c - 48)
      else if CHR ''a'' \<le> c \<and> c \<le> CHR ''f'' then Some (of_char c - 87)
      else if CHR ''A'' \<le> c \<and> c \<le> CHR ''F'' then Some (of_char c - 55)
      else None)"

text \<open>
  The four hex digits of a \<open>\u\<close> escape. A code unit above 255 does not fit the
  8-bit characters of the model and is refused.
\<close>

definition unicode_escape :: "string \<Rightarrow> char option" where
  "unicode_escape s =
     (case map hex_val s of
        [Some a, Some b, Some c, Some d] \<Rightarrow>
          (if a = 0 \<and> b = 0 then Some (char_of (16 * c + d)) else None)
      | _ \<Rightarrow> None)"

definition simple_escape :: "char \<Rightarrow> char option" where
  "simple_escape e =
     (if e = CHR 0x22 then Some (CHR 0x22)
      else if e = CHR 0x5C then Some (CHR 0x5C)
      else if e = CHR ''/'' then Some (CHR ''/'')
      else if e = CHR ''b'' then Some (CHR 0x08)
      else if e = CHR ''f'' then Some (CHR 0x0C)
      else if e = CHR ''n'' then Some (CHR 0x0A)
      else if e = CHR ''r'' then Some (CHR 0x0D)
      else if e = CHR ''t'' then Some (CHR 0x09)
      else None)"

text \<open>
  The characters of a string literal after its opening quote, up to the closing
  quote; the result is the decoded string and the rest of the input. The fuel bounds
  the number of characters read.
\<close>

fun parse_chars :: "nat \<Rightarrow> string \<Rightarrow> (string \<times> string) option" where
  "parse_chars 0 s = None"
| "parse_chars (Suc n) [] = None"
| "parse_chars (Suc n) (c # cs) =
     (if c = CHR 0x22 then Some ([], cs)
      else if c = CHR 0x5C then
        (case cs of
           [] \<Rightarrow> None
         | e # cs' \<Rightarrow>
             if e = CHR ''u'' then
               (case unicode_escape (take 4 cs') of
                  None \<Rightarrow> None
                | Some ch \<Rightarrow>
                    (case parse_chars n (drop 4 cs') of
                       None \<Rightarrow> None
                     | Some (str, r) \<Rightarrow> Some (ch # str, r)))
             else
               (case simple_escape e of
                  None \<Rightarrow> None
                | Some ch \<Rightarrow>
                    (case parse_chars n cs' of
                       None \<Rightarrow> None
                     | Some (str, r) \<Rightarrow> Some (ch # str, r))))
      else if c < CHR 0x20 then None
      else
        (case parse_chars n cs of
           None \<Rightarrow> None
         | Some (str, r) \<Rightarrow> Some (c # str, r)))"

definition digits_val :: "string \<Rightarrow> int" where
  "digits_val ds = foldl (\<lambda>acc c. 10 * acc + (of_char c - 48)) 0 ds"

text \<open>
  An integer literal: an optional minus sign, then \<open>0\<close> or a digit sequence without
  leading zero. A fraction or an exponent is outside the modelled subset.
\<close>

definition parse_nat :: "string \<Rightarrow> (int \<times> string) option" where
  "parse_nat s =
     (let ds = takeWhile is_digit s; r = dropWhile is_digit s
      in if ds = [] then None
         else if hd ds = CHR ''0'' \<and> length ds > 1 then None
         else if r \<noteq> [] \<and> (hd r = CHR ''.'' \<or> hd r = CHR ''e'' \<or> hd r = CHR ''E'') then None
         else Some (digits_val ds, r))"

definition parse_number :: "string \<Rightarrow> (json \<times> string) option" where
  "parse_number s =
     (case s of
        [] \<Rightarrow> None
      | c # cs \<Rightarrow>
          if c = CHR ''-'' then
            (case parse_nat cs of None \<Rightarrow> None | Some (n, r) \<Rightarrow> Some (JNum (- n), r))
          else
            (case parse_nat s of None \<Rightarrow> None | Some (n, r) \<Rightarrow> Some (JNum n, r)))"

definition parse_literal :: "string \<Rightarrow> (json \<times> string) option" where
  "parse_literal s =
     (if take 4 s = ''true'' then Some (JBool True, drop 4 s)
      else if take 5 s = ''false'' then Some (JBool False, drop 5 s)
      else if take 4 s = ''null'' then Some (JNull, drop 4 s)
      else parse_number s)"

text \<open>
  Recursive descent over values, array elements and object members. Every call
  consumes one unit of fuel; \<open>JSON_parse\<close> supplies more fuel than the input has
  characters.
\<close>

fun parse_value :: "nat \<Rightarrow> string \<Rightarrow> (json \<times> string) option"
  and parse_elements :: "nat \<Rightarrow> string \<Rightarrow> (json list \<times> string) option"
  and parse_members :: "nat \<Rightarrow> string \<Rightarrow> ((string \<times> json) list \<times> string) option"
where
  "parse_value 0 s = None"
| "parse_value (Suc n) s =
     (case skip_ws s of
        [] \<Rightarrow> None
      | c # cs \<Rightarrow>
          if c = CHR 0x22 then
            (case parse_chars (length cs) cs of
               None \<Rightarrow> None
             | Some (str, r) \<Rightarrow> Some (JStr str, r))
          else if c = CHR ''['' then
            (case skip_ws cs of
               [] \<Rightarrow> None
             | d # ds \<Rightarrow>
                 if d = CHR '']'' then Some (JArr [], ds)
                 else (case parse_elements n cs of
                         None \<Rightarrow> None
                       | Some (xs, r) \<Rightarrow> Some (JArr xs, r)))
          else if c = CHR ''{'' then
            (case skip_ws cs of
               [] \<Rightarrow> None
             | d # ds \<Rightarrow>
                 if d = CHR ''}'' then Some (JObj [], ds)
                 else (case parse_members n cs of
                         None \<Rightarrow> None
                       | Some (kvs, r) \<Rightarrow> Some (JObj kvs, r)))
          else parse_literal (c # cs))"
| "parse_elements 0 s = None"
| "parse_elements (Suc n) s =
     (case parse_value n s of
        None \<Rightarrow> None
      | Some (v, r) \<Rightarrow>
          (case skip_ws r of
             [] \<Rightarrow> None
           | c # cs \<Rightarrow>
               if c = CHR '']'' then Some ([v], cs)
               else if c = CHR '','' then
                 (case parse_elements n cs of
                    None \<Rightarrow> None
                  | Some (vs, r') \<Rightarrow> Some (v # vs, r'))
               else None))"
| "parse_members 0 s = None"
| "parse_members (Suc n) s =
     (case skip_ws s of
        [] \<Rightarrow> None
      | q # s1 \<Rightarrow>
          if q \<noteq> CHR 0x22 then None
          else
            (case parse_chars (length s1) s1 of
               None \<Rightarrow> None
             | Some (k, s2) \<Rightarrow>
                 (case skip_ws s2 of
                    [] \<Rightarrow> None
                  | colon # s3 \<Rightarrow>
                      if colon \<noteq> CHR '':'' then None
                      else
                        (case parse_value n s3 of
                           None \<Rightarrow> None
                         | Some (v, s4) \<Rightarrow>
                             (case skip_ws s4 of
                                [] \<Rightarrow> None
                              | c # cs \<Rightarrow>
                                  if c = CHR ''}'' then Some ([(k, v)], cs)
                                  else if c = CHR '','' then
                                    (case parse_members n cs of
                                       None \<Rightarrow> None
                                     | Some (kvs, r') \<Rightarrow> Some ((k, v) # kvs, r'))
                                  else None)))))"

definition json_syntax_error :: js_error where
  "json_syntax_error = SyntaxError ''Unexpected token in JSON''"

definition JSON_parse :: "string \<Rightarrow> js_error + json" where
  "JSON_parse s =
     (case parse_value (Suc (length s)) s of
        None \<Rightarrow> Inl json_syntax_error
      | Some (v, r) \<Rightarrow> if skip_ws r = [] then Inr v else Inl json_syntax_error)"

section \<open>Inference client\<close>

text \<open>
  The response of \<open>ai.models.generateContent\<close> is used only through
  \<open>response.text\<close>, a string or \<open>undefined\<close>. The outcome of the call is the
  response, or the value the SDK throws.
\<close>

type_synonym response = "string option"

text \<open>
  The \<open>required\<close> lists of the response schema that the request carries
  (index.tsx:41,46; 517,522; app.tsx:52,57).
\<close>

definition required_fields :: "string list" where
  "required_fields =
     [''foodName'', ''calories'', ''servingSize'', ''macros'', ''healthAnalysis'', ''rating'']"

definition required_macros :: "string list" where
  "required_macros = [''protein'', ''carbs'', ''fat'', ''fiber'']"

definition has_property :: "json \<Rightarrow> string \<Rightarrow> bool" where
  "has_property v k = (case v of JObj kvs \<Rightarrow> map_of kvs k \<noteq> None | _ \<Rightarrow> False)"

definition has_required_fields :: "json \<Rightarrow> bool" where
  "has_required_fields v =
     (list_all (has_property v) required_fields \<and>
      (case v of
         JObj kvs \<Rightarrow>
           (case map_of kvs ''macros'' of
              Some m \<Rightarrow> list_all (has_property m) required_macros
            | None \<Rightarrow> False)
       | _ \<Rightarrow> False))"

text \<open>
  \<open>analyzeImage\<close> of index.tsx:24 and of app.tsx:35 (the same body), from the
  outcome of the call of the SDK on: nothing is caught, so a thrown value of the call
  and the SyntaxError of \<open>JSON.parse\<close> reach the caller as they are. The parsed
  value is returned under a type assertion only.
\<close>

definition analyzeImage_basic :: "js_error + response \<Rightarrow> js_error + json" where
  "analyzeImage_basic outcome =
     (case outcome of
        Inl e \<Rightarrow> Inl e
      | Inr text \<Rightarrow>
          if falsy text then Inl (new_Error ''No response from AI'')
          else JSON_parse (the text))"

text \<open>
  The messages of the retry-enabled variant are Chinese in the source; they are
  rendered in English here, one constant per message.
\<close>

definition msg_not_configured :: string where
  "msg_not_configured = ''API Key not configured. Please check your .env.local file.''"

definition msg_api_key :: string where
  "msg_api_key = ''API Key invalid or not configured. Check GEMINI_API_KEY in .env.local.''"

definition msg_quota :: string where
  "msg_quota = ''API quota used up. Try again later or check your Gemini API quota.''"

definition msg_forbidden :: string where
  "msg_forbidden = ''API access denied. Check the permissions of the API Key.''"

definition msg_bad_request :: string where
  "msg_bad_request = ''Malformed request. The image may be damaged or unsupported.''"

definition msg_network :: string where
  "msg_network = ''Network connection failed. Check the connection and retry.''"

definition msg_failed :: "string \<Rightarrow> string" where
  "msg_failed m = ''Analysis failed: '' @ (if m = [] then ''unknown error'' else m)"

text \<open>
  The \<open>catch\<close> block of index.tsx:562-582. Every branch throws a fresh
  \<open>new Error(...)\<close>; when the caught value has no string message,
  \<open>error.message.includes\<close> itself raises a TypeError.
\<close>

definition classify_error :: "js_error \<Rightarrow> js_error" where
  "classify_error error =
     (case message error of
        None \<Rightarrow> TypeError ''Cannot read properties of undefined (reading includes)''
      | Some m \<Rightarrow>
          if str_includes m ''API_KEY'' then new_Error msg_api_key
          else if str_includes m ''quota'' \<or> status error = Some 429 then new_Error msg_quota
          else if status error = Some 403 then new_Error msg_forbidden
          else if status error = Some 400 then new_Error msg_bad_request
          else if name error = ''NetworkError'' \<or> str_includes m ''fetch''
            then new_Error msg_network
          else new_Error (msg_failed m))"

text \<open>
  \<open>analyzeImage\<close> of index.tsx:491. \<open>API_KEY\<close> is \<open>process.env.API_KEY\<close>;
  \<open>generateContent\<close> gives the outcome of the call for the image sent. The check of
  the key is outside the \<open>try\<close>; the empty-response error and the error of
  \<open>JSON.parse\<close> are thrown inside it and pass through the \<open>catch\<close> block.
  The constructor of the SDK client, also outside the \<open>try\<close>, is given a key
  that is present and is taken not to throw.
\<close>

definition analyzeImage ::
  "string option \<Rightarrow> (string \<Rightarrow> js_error + response) \<Rightarrow> string \<Rightarrow> js_error + json" where
  "analyzeImage API_KEY generateContent base64Image =
     (if falsy API_KEY then Inl (new_Error msg_not_configured)
      else
        (case analyzeImage_basic (generateContent base64Image) of
           Inl error \<Rightarrow> Inl (classify_error error)
         | Inr result \<Rightarrow> Inr result))"

section \<open>Retry policy\<close>

text \<open>
  What a run does besides returning: the calls of the wrapped operation, numbered by
  attempt, and the delays in milliseconds between them.
\<close>

datatype event = Call nat | Sleep nat

definition retriable :: "js_error \<Rightarrow> bool" where
  "retriable error = (status error = Some 503 \<or> status error = Some 429)"

text \<open>
  The \<open>for\<close> loop of \<open>analyzeImageWithRetry\<close> (index.tsx:468-489), from attempt
  \<open>attempt\<close> on, over any wrapped operation: \<open>operation n\<close> is the outcome of the
  \<open>n\<close>-th call. The statement after the loop is reached only when the loop
  condition fails.
\<close>

function retry_loop ::
  "(nat \<Rightarrow> js_error + 'a) \<Rightarrow> int \<Rightarrow> nat \<Rightarrow> (js_error + 'a) \<times> event list" where
  "retry_loop operation maxRetries attempt =
     (if int attempt \<le> maxRetries then
        (case operation attempt of
           Inr result \<Rightarrow> (Inr result, [Call attempt])
         | Inl error \<Rightarrow>
             if retriable error \<and> int attempt < maxRetries then
               (case retry_loop operation maxRetries (Suc attempt) of
                  (r, tr) \<Rightarrow> (r, Call attempt # Sleep (2 ^ attempt * 1000) # tr))
             else (Inl error, [Call attempt]))
      else (Inl (new_Error ''Failed after multiple retries''), []))"
  by pat_completeness auto
termination
  by (relation "measure (\<lambda>(operation, maxRetries, attempt). nat (maxRetries + 1 - int attempt))") auto

declare retry_loop.simps [simp del]

text \<open>
  \<open>analyzeImageWithRetry\<close>: the loop from attempt 1 around \<open>analyzeImage\<close>. The
  service may answer each call differently: \<open>generateContent n\<close> is its behaviour
  at the \<open>n\<close>-th attempt.
\<close>

definition analyzeImageWithRetry ::
  "string option \<Rightarrow> (nat \<Rightarrow> string \<Rightarrow> js_error + response) \<Rightarrow> string \<Rightarrow> int
     \<Rightarrow> (js_error + json) \<times> event list" where
  "analyzeImageWithRetry API_KEY generateContent base64Image maxRetries =
     retry_loop (\<lambda>attempt. analyzeImage API_KEY (generateContent attempt) base64Image)
       maxRetries 1"

definition calls :: "event list \<Rightarrow> nat list" where
  "calls tr = concat (map (\<lambda>ev. case ev of Call n \<Rightarrow> [n] | Sleep d \<Rightarrow> []) tr)"

section \<open>Image codec helper\<close>

subsection \<open>Numbers\<close>

text \<open>
  A number of the source is an IEEE 754 binary64 value. The arithmetic of
  \<open>compressImage\<close> meets only finite values that are not negative; such a value is
  kept here as a mantissa \<open>m\<close> and an exponent \<open>k\<close> and stands for
  \<open>m * 2 ^ k\<close>. A quotient or a product is the exact result rounded to 53
  significant bits, to nearest, a tie going to the even mantissa. Overflow to
  \<open>Infinity\<close> and gradual underflow are not modelled: the operands of
  \<open>compressImage\<close> are integers below \<open>2 ^ 53\<close> and dimensions below
  \<open>2 ^ 32\<close>, whose quotients and products stay between \<open>2 ^ -32\<close> and
  \<open>2 ^ 86\<close>.
\<close>

type_synonym double = "int \<times> int"


text \<open>The number of binary digits of a positive integer.\<close>

function bit_length :: "int \<Rightarrow> int" where
  "bit_length n = (if n \<le> 0 then 0 else 1 + bit_length (n div 2))"
  by pat_completeness auto
termination
  by (relation "measure nat") auto

declare bit_length.simps [simp del]

text \<open>The fraction \<open>n / (d * 2 ^ k)\<close>, as a numerator and a denominator.\<close>

definition scaled :: "int \<Rightarrow> int \<Rightarrow> int \<Rightarrow> int \<times> int" where
  "scaled n d k = (if 0 \<le> k then (n, d * 2 ^ nat k) else (n * 2 ^ nat (- k), d))"

text \<open>
  The binary exponent of \<open>n / d\<close> for positive \<open>n\<close> and \<open>d\<close>: the
  \<open>e\<close> with \<open>2 ^ e \<le> n / d < 2 ^ (e + 1)\<close>.
\<close>

definition exponent :: "int \<Rightarrow> int \<Rightarrow> int" where
  "exponent n d =
     (let e = bit_length n - bit_length d
      in case scaled n d e of (N, D) \<Rightarrow> if D \<le> N then e else e - 1)"

text \<open>The integer nearest to \<open>n / d\<close>, the even one when two are equally near.\<close>

definition round_half_even :: "int \<Rightarrow> int \<Rightarrow> int" where
  "round_half_even n d =
     (let q = n div d; r = n mod d
      in if 2 * r < d then q
         else if d < 2 * r then q + 1
         else if even q then q else q + 1)"

text \<open>
  The double nearest to \<open>n / d\<close>: the quotient is scaled so that its integer part
  has 53 bits, and rounded there.
\<close>

definition round_quotient :: "int \<Rightarrow> int \<Rightarrow> double" where
  "round_quotient n d =
     (if n = 0 then (0, 0)
      else
        (let k = exponent n d - 52
         in case scaled n d k of (N, D) \<Rightarrow> (round_half_even N D, k)))"

text \<open>
  \<open>a / b\<close> for integers \<open>a\<close> and \<open>b > 0\<close> that a double holds exactly, and
  \<open>a * x\<close> for such an \<open>a\<close> and a double \<open>x\<close>.
\<close>

definition js_div :: "nat \<Rightarrow> nat \<Rightarrow> double" where
  "js_div a b = round_quotient (int a) (int b)"

definition js_mul :: "nat \<Rightarrow> double \<Rightarrow> double" where
  "js_mul a x =
     (case x of (m, k) \<Rightarrow>
        if 0 \<le> k then round_quotient (int a * m * 2 ^ nat k) 1
        else round_quotient (int a * m) (2 ^ nat (- k)))"

text \<open>\<open>x <= y\<close> and \<open>Math.min(x, y)\<close> on doubles.\<close>

definition double_le :: "double \<Rightarrow> double \<Rightarrow> bool" where
  "double_le x y =
     (case (x, y) of ((m, k), (m', k')) \<Rightarrow>
        if k \<le> k' then m \<le> m' * 2 ^ nat (k' - k) else m * 2 ^ nat (k - k') \<le> m')"

definition Math_min :: "double \<Rightarrow> double \<Rightarrow> double" where
  "Math_min x y = (if double_le x y then x else y)"

text \<open>The integer part of a double.\<close>

definition integer_part :: "double \<Rightarrow> int" where
  "integer_part x = (case x of (m, k) \<Rightarrow> if 0 \<le> k then m * 2 ^ nat k else m div 2 ^ nat (- k))"

subsection \<open>\<open>compressImage\<close>\<close>

text \<open>
  The browser as \<open>compressImage\<close> uses it: loading a source URL into an
  \<open>Image\<close> ends in \<open>onload\<close> with the natural width and height (of type
  \<open>unsigned long\<close>, so below \<open>2 ^ 32\<close>), or in \<open>onerror\<close> (\<open>None\<close>);
  \<open>getContext('2d')\<close> may give \<open>null\<close>; \<open>toDataURL\<close> encodes the source
  drawn on a canvas of the given width and height at the given quality.
\<close>

record browser =
  loadImage :: "string \<Rightarrow> (nat \<times> nat) option"
  getContext2d :: bool
  toDataURL :: "string \<Rightarrow> nat \<Rightarrow> nat \<Rightarrow> real \<Rightarrow> string"

text \<open>
  \<open>Math.min(maxWidth / img.width, maxWidth / img.height)\<close> (index.tsx:840), for
  positive width and height. \<open>maxWidth\<close> is an integer that a double holds exactly:
  200 and 800 at the call sites, 800 by default.
\<close>

definition ratio :: "nat \<Rightarrow> nat \<Rightarrow> nat \<Rightarrow> double" where
  "ratio maxWidth width height = Math_min (js_div maxWidth width) (js_div maxWidth height)"

text \<open>
  The assignment of a number to \<open>canvas.width\<close> or \<open>canvas.height\<close>
  (index.tsx:841-842). The conversion to \<open>unsigned long\<close> drops the fraction and
  reduces modulo \<open>2 ^ 32\<close>; the attribute reflects a content attribute that holds
  values up to \<open>2 ^ 31 - 1\<close>, and a larger value is replaced by the default of the
  attribute, 300 for the width and 150 for the height.
\<close>

definition canvas_dimension :: "nat \<Rightarrow> double \<Rightarrow> nat" where
  "canvas_dimension fallback x =
     (let u = integer_part x mod 4294967296
      in if u \<le> 2147483647 then nat u else fallback)"

text \<open>
  The width and height of the canvas. A zero dimension divides by zero in the source:
  that quotient is \<open>Infinity\<close> (\<open>NaN\<close> when \<open>maxWidth\<close> is 0 as well), the
  minimum is the other quotient (or \<open>NaN\<close>), the product with 0 is 0 or \<open>NaN\<close>,
  and \<open>NaN\<close> is stored as 0.
\<close>

definition canvas_size :: "nat \<Rightarrow> nat \<Rightarrow> nat \<Rightarrow> nat \<times> nat" where
  "canvas_size maxWidth width height =
     (if width = 0 \<and> height = 0 then (0, 0)
      else if width = 0 then (0, canvas_dimension 150 (js_mul height (js_div maxWidth height)))
      else if height = 0 then (canvas_dimension 300 (js_mul width (js_div maxWidth width)), 0)
      else (canvas_dimension 300 (js_mul width (ratio maxWidth width height)),
            canvas_dimension 150 (js_mul height (ratio maxWidth width height))))"

text \<open>
  \<open>dataUrl.split(',')[1]\<close>: the text between the first comma and the next one. A
  data URL always has the comma that ends its header.
\<close>

definition split_comma_1 :: "string \<Rightarrow> string" where
  "split_comma_1 url = takeWhile (\<lambda>c. c \<noteq> CHR '','') (drop 1 (dropWhile (\<lambda>c. c \<noteq> CHR '','') url))"

text \<open>
  \<open>compressImage\<close> (index.tsx:828-855). The promise has no reject path: each of
  its three exits calls \<open>resolve\<close>.
\<close>

definition compressImage :: "browser \<Rightarrow> string \<Rightarrow> nat \<Rightarrow> real \<Rightarrow> js_error + string" where
  "compressImage br base64 maxWidth quality =
     (case loadImage br (''data:image/jpeg;base64,'' @ base64) of
        None \<Rightarrow> Inr base64
      | Some (width, height) \<Rightarrow>
          if \<not> getContext2d br then Inr base64
          else
            (case canvas_size maxWidth width height of
               (cw, ch) \<Rightarrow>
                 Inr (split_comma_1
                        (toDataURL br (''data:image/jpeg;base64,'' @ base64) cw ch quality))))"

section \<open>History store\<close>

text \<open>
  \<open>localStorage\<close>: the stored items, and the quota of the origin in characters.
  \<open>setItem\<close> raises a \<open>QuotaExceededError\<close> when the item does not fit; the
  program keeps one item, so the other items of the origin are not counted.
\<close>

record storage =
  items :: "string \<Rightarrow> string option"
  quota :: nat

definition QuotaExceededError :: js_error where
  "QuotaExceededError =
     \<lparr>name = ''QuotaExceededError'', message = Some ''The quota has been exceeded.'',
      status = None\<rparr>"

definition getItem :: "storage \<Rightarrow> string \<Rightarrow> string option" where
  "getItem st key = items st key"

definition setItem :: "storage \<Rightarrow> string \<Rightarrow> string \<Rightarrow> js_error + storage" where
  "setItem st key data =
     (if length key + length data > quota st then Inl QuotaExceededError
      else Inr (st\<lparr>items := (items st)(key \<mapsto> data)\<rparr>))"

text \<open>\<open>x || d\<close> for a string or \<open>null\<close> on the left.\<close>

definition or_default :: "string option \<Rightarrow> string \<Rightarrow> string" where
  "or_default x d = (if falsy x then d else the x)"

text \<open>
  \<open>[record, ...v]\<close> iterates \<open>v\<close>: an array gives its elements, a string its
  characters, anything else is not iterable.
\<close>

definition js_spread :: "json \<Rightarrow> js_error + json list" where
  "js_spread v =
     (case v of
        JArr xs \<Rightarrow> Inr xs
      | JStr s \<Rightarrow> Inr (map (\<lambda>c. JStr [c]) s)
      | _ \<Rightarrow> Inl (TypeError ''existingRecords is not iterable''))"

text \<open>\<open>v.slice(0, n)\<close> on a parsed value.\<close>

definition js_slice :: "json \<Rightarrow> nat \<Rightarrow> js_error + json" where
  "js_slice v n =
     (case v of
        JArr xs \<Rightarrow> Inr (JArr (take n xs))
      | JStr s \<Rightarrow> Inr (JStr (take n s))
      | _ \<Rightarrow> Inl (TypeError ''existingRecords.slice is not a function''))"

datatype mealType = breakfast | lunch | dinner | snack

definition mealType_string :: "mealType \<Rightarrow> string" where
  "mealType_string t =
     (case t of breakfast \<Rightarrow> ''breakfast'' | lunch \<Rightarrow> ''lunch''
      | dinner \<Rightarrow> ''dinner'' | snack \<Rightarrow> ''snack'')"

text \<open>The object literal of a \<open>MealRecord\<close> (index.tsx:875-881).\<close>

definition MealRecord :: "string \<Rightarrow> int \<Rightarrow> string \<Rightarrow> json \<Rightarrow> mealType \<Rightarrow> json" where
  "MealRecord ident timestamp img result mt =
     JObj [(''id'', JStr ident), (''timestamp'', JNum timestamp), (''image'', JStr img),
           (''result'', result), (''mealType'', JStr (mealType_string mt))]"

text \<open>
  The body of the \<open>try\<close> of \<open>saveMealRecord\<close> (index.tsx:870-899). \<open>now_id\<close>
  and \<open>now_ts\<close> are the two readings of \<open>Date.now()\<close>. The second compression
  (\<open>apiImage\<close>) is computed and not used. The final log of the storage size is
  left out.
\<close>

definition saveMealRecord_try ::
  "browser \<Rightarrow> int \<Rightarrow> int \<Rightarrow> storage \<Rightarrow> string \<Rightarrow> json \<Rightarrow> mealType \<Rightarrow> js_error + storage" where
  "saveMealRecord_try br now_id now_ts st img result mt =
     (case compressImage br img 200 0.7 of
        Inl e \<Rightarrow> Inl e
      | Inr storageImage \<Rightarrow>
          (case compressImage br img 800 0.8 of
             Inl e \<Rightarrow> Inl e
           | Inr apiImage \<Rightarrow>
               (case JSON_parse (or_default (getItem st ''mealHistory'') ''[]'') of
                  Inl e \<Rightarrow> Inl e
                | Inr existingRecords \<Rightarrow>
                    (case js_spread existingRecords of
                       Inl e \<Rightarrow> Inl e
                     | Inr xs \<Rightarrow>
                         (let record = MealRecord (show_int now_id) now_ts storageImage result mt;
                              updatedRecords = take 20 (record # xs);
                              testData = JSON_stringify (JArr updatedRecords)
                          in if length testData > 4 * 1024 * 1024 then
                               setItem st ''mealHistory''
                                 (JSON_stringify (JArr (take 10 updatedRecords)))
                             else setItem st ''mealHistory'' (JSON_stringify (JArr updatedRecords)))))))"

text \<open>
  \<open>saveMealRecord\<close> with its \<open>catch\<close> (index.tsx:900-910). A
  \<open>QuotaExceededError\<close> rewrites the slot with the first five stored records;
  what that raises is not caught. Any other error is logged and the save resolves with
  the storage as it was.
\<close>

definition saveMealRecord ::
  "browser \<Rightarrow> int \<Rightarrow> int \<Rightarrow> storage \<Rightarrow> string \<Rightarrow> json \<Rightarrow> mealType \<Rightarrow> js_error + storage" where
  "saveMealRecord br now_id now_ts st img result mt =
     (case saveMealRecord_try br now_id now_ts st img result mt of
        Inr st' \<Rightarrow> Inr st'
      | Inl error \<Rightarrow>
          if name error = ''QuotaExceededError'' then
            (case JSON_parse (or_default (getItem st ''mealHistory'') ''[]'') of
               Inl e \<Rightarrow> Inl e
             | Inr existingRecords \<Rightarrow>
                 (case js_slice existingRecords 5 of
                    Inl e \<Rightarrow> Inl e
                  | Inr recentRecords \<Rightarrow>
                      setItem st ''mealHistory'' (JSON_stringify recentRecords)))
          else Inr st)"

text \<open>\<open>getMealHistory\<close> (index.tsx:913-920).\<close>

definition getMealHistory :: "storage \<Rightarrow> js_error + json" where
  "getMealHistory st =
     (case JSON_parse (or_default (getItem st ''mealHistory'') ''[]'') of
        Inl error \<Rightarrow> Inr (JArr [])
      | Inr v \<Rightarrow> Inr v)"

subsection \<open>The store of app.tsx\<close>

definition STORAGE_KEY :: string where
  "STORAGE_KEY = ''capforeat_data''"

text \<open>\<open>loadData\<close> (app.tsx:90-97).\<close>

definition loadData :: "storage \<Rightarrow> js_error + json" where
  "loadData st =
     (let data = getItem st STORAGE_KEY
      in case (if falsy data then Inr (JArr []) else JSON_parse (the data)) of
           Inl error \<Rightarrow> Inr (JArr [])
         | Inr v \<Rightarrow> Inr v)"

text \<open>\<open>saveData\<close> (app.tsx:99-105): a failed write is logged, nothing is raised.\<close>

definition saveData :: "storage \<Rightarrow> json list \<Rightarrow> storage" where
  "saveData st records =
     (case setItem st STORAGE_KEY (JSON_stringify (JArr records)) of
        Inl e \<Rightarrow> st
      | Inr st' \<Rightarrow> st')"

text \<open>
  \<open>{...result, id: ..., timestamp: ..., image: ...}\<close>: the own properties of
  \<open>result\<close>, then the three assignments, each replacing a property of the same name
  in place or adding one at the end.
\<close>

definition own_properties :: "json \<Rightarrow> (string \<times> json) list" where
  "own_properties v =
     (case v of
        JObj kvs \<Rightarrow> kvs
      | JArr xs \<Rightarrow> zip (map (\<lambda>i. show_int (int i)) [0..<length xs]) xs
      | JStr s \<Rightarrow> zip (map (\<lambda>i. show_int (int i)) [0..<length s]) (map (\<lambda>c. JStr [c]) s)
      | _ \<Rightarrow> [])"

fun set_property :: "string \<Rightarrow> json \<Rightarrow> (string \<times> json) list \<Rightarrow> (string \<times> json) list" where
  "set_property k v [] = [(k, v)]"
| "set_property k v ((k', v') # kvs) =
     (if k' = k then (k, v) # kvs else (k', v') # set_property k v kvs)"

datatype page = home | history | settings

text \<open>The state of \<open>App\<close> in app.tsx that \<open>handleSaveRecord\<close> reads and writes.\<close>

record app_state =
  analysisImage :: "string option"
  records :: "json list"
  currentPage :: page
  localStorage :: storage

text \<open>
  The object literal \<open>newRecord\<close> of \<open>handleSaveRecord\<close>
  (app.tsx:601-606); \<open>now_id\<close> and \<open>now_ts\<close> are the two readings of
  \<open>Date.now()\<close>.
\<close>

definition newRecord :: "int \<Rightarrow> int \<Rightarrow> string \<Rightarrow> json \<Rightarrow> json" where
  "newRecord now_id now_ts img result =
     JObj (set_property ''image'' (JStr img)
            (set_property ''timestamp'' (JNum now_ts)
              (set_property ''id'' (JStr (show_int now_id)) (own_properties result))))"

text \<open>
  \<open>handleSaveRecord\<close> (app.tsx:598-614). The list of records of the state gets
  the new record at its end and is handed to \<open>saveData\<close>.
\<close>

definition handleSaveRecord :: "int \<Rightarrow> int \<Rightarrow> app_state \<Rightarrow> json \<Rightarrow> app_state" where
  "handleSaveRecord now_id now_ts s result =
     (if falsy (analysisImage s) then s
      else
        (let updatedRecords =
               records s @ [newRecord now_id now_ts (the (analysisImage s)) result]
         in s\<lparr>records := updatedRecords,
              localStorage := saveData (localStorage s) updatedRecords,
              analysisImage := None,
              currentPage := home\<rparr>))"

section \<open>Notions used in the proofs\<close>

text \<open>
  What may follow a value in the output of \<open>JSON.stringify\<close>: nothing, a comma
  or a closing bracket. In particular no character that would continue a number.
\<close>

definition follow :: "string \<Rightarrow> bool" where
  "follow r = (r = [] \<or> hd r = CHR '','' \<or> hd r = CHR '']'' \<or> hd r = CHR ''}'')"

text \<open>The characters a serialized value can start with.\<close>

definition value_start :: "char \<Rightarrow> bool" where
  "value_start c = (c = CHR ''n'' \<or> c = CHR ''t'' \<or> c = CHR ''f'' \<or> c = CHR ''-'' \<or> is_digit c
                    \<or> c = CHR 0x22 \<or> c = CHR ''['' \<or> c = CHR ''{'')"

text \<open>
  A value parses back: its serialization, followed by anything that may follow a
  value, is read as the value and leaves what follows, with fuel of at least the length
  of the serialization.
\<close>

definition parses :: "json \<Rightarrow> bool" where
  "parses v = (\<forall>n r. length (JSON_stringify v) \<le> n \<longrightarrow> follow r \<longrightarrow>
                 parse_value n (JSON_stringify v @ r) = Some (v, r))"

text \<open>One member of a serialized object.\<close>

definition member_string :: "string \<times> json \<Rightarrow> string" where
  "member_string kv = quote (fst kv) @ '':'' @ JSON_stringify (snd kv)"

subsection \<open>Runs of saves\<close>

text \<open>
  A run of saves, in order: each argument is the two clock readings, the image, the
  analysis result and the meal type of one call of \<open>saveMealRecord\<close>. The run
  stops at the first save that rejects.
\<close>

type_synonym save_args = "int \<times> int \<times> string \<times> json \<times> mealType"

fun save_all :: "browser \<Rightarrow> storage \<Rightarrow> save_args list \<Rightarrow> js_error + storage" where
  "save_all br st [] = Inr st"
| "save_all br st ((now_id, now_ts, img, result, mt) # rest) =
     (case saveMealRecord br now_id now_ts st img result mt of
        Inl e \<Rightarrow> Inl e
      | Inr st' \<Rightarrow> save_all br st' rest)"

text \<open>
  The record that a save builds from its arguments. The compression always resolves,
  so the second branch is never taken.
\<close>

fun record_of :: "browser \<Rightarrow> save_args \<Rightarrow> json" where
  "record_of br (now_id, now_ts, img, result, mt) =
     (case compressImage br img 200 0.7 of
        Inr storageImage \<Rightarrow> MealRecord (show_int now_id) now_ts storageImage result mt
      | Inl e \<Rightarrow> JNull)"

text \<open>
  A collection is storable under a quota when its serialization is within the budget
  of 4 MiB characters, fits the quota together with the key, and is read back by
  \<open>JSON.parse\<close> as the collection.
\<close>

definition storable :: "nat \<Rightarrow> json list \<Rightarrow> bool" where
  "storable q c =
     (length (JSON_stringify (JArr c)) \<le> 4 * 1024 * 1024 \<and>
      length ''mealHistory'' + length (JSON_stringify (JArr c)) \<le> q \<and>
      JSON_parse (JSON_stringify (JArr c)) = Inr (JArr c))"

text \<open>A run of saves followed by \<open>getMealHistory\<close>.\<close>

definition load_after_saves :: "browser \<Rightarrow> storage \<Rightarrow> save_args list \<Rightarrow> js_error + json" where
  "load_after_saves br st args =
     (case save_all br st args of
        Inl e \<Rightarrow> Inl e
      | Inr st' \<Rightarrow> getMealHistory st')"

section \<open>Sample values\<close>

text \<open>Errors as the SDK throws them for an HTTP status, used in the examples below.\<close>

definition rate_limited :: js_error where
  "rate_limited = \<lparr>name = ''ApiError'', message = Some ''Too Many Requests'', status = Some 429\<rparr>"

definition bad_request :: js_error where
  "bad_request = \<lparr>name = ''ApiError'', message = Some ''Bad Request'', status = Some 400\<rparr>"

text \<open>A service that answers every call with status 429, and one with status 400.\<close>

definition always_429 :: "nat \<Rightarrow> string \<Rightarrow> js_error + response" where
  "always_429 n img = Inl rate_limited"

definition always_400 :: "nat \<Rightarrow> string \<Rightarrow> js_error + response" where
  "always_400 n img = Inl bad_request"

text \<open>A response of the service that lacks four of the six required fields.\<close>

definition partial_payload :: string where
  "partial_payload = JSON_stringify (JObj [(''foodName'', JStr ''Rice''), (''calories'', JNum 200)])"

definition answers_partial :: "string \<Rightarrow> js_error + response" where
  "answers_partial img = Inr (Some partial_payload)"

text \<open>A browser in which the image fails to load (\<open>onerror\<close>).\<close>

definition no_decoder :: browser where
  "no_decoder = \<lparr>loadImage = (\<lambda>src. None), getContext2d = True,
                  toDataURL = (\<lambda>src w h q. ''data:image/jpeg;base64,AAAA'')\<rparr>"


text \<open>
  A storage with nothing stored, and one whose two slots hold text that is not JSON.
  The quota is 5 MiB of characters.
\<close>

definition empty_storage :: storage where
  "empty_storage = \<lparr>items = (\<lambda>key. None), quota = 5242880\<rparr>"

definition corrupted_storage :: storage where
  "corrupted_storage =
     \<lparr>items = (\<lambda>key. if key = ''mealHistory'' \<or> key = STORAGE_KEY then Some ''{not json'' else None),
      quota = 5242880\<rparr>"

text \<open>The analysis result of the end-to-end example of the specification.\<close>

definition sample_result :: json where
  "sample_result =
     JObj [(''foodName'', JStr ''Grilled Chicken Salad''), (''calories'', JNum 420),
           (''servingSize'', JStr ''1 bowl''),
           (''macros'', JObj [(''protein'', JNum 38), (''carbs'', JNum 12),
                             (''fat'', JNum 18), (''fiber'', JNum 5)]),
           (''healthAnalysis'', JStr ''Lean protein with vegetables.''), (''rating'', JNum 8)]"

text \<open>
  A service that answers the first three calls with status 429 and every later call
  with the sample result.
\<close>

definition sample_payload :: string where
  "sample_payload = JSON_stringify sample_result"

definition quota_thrice_then_result :: "nat \<Rightarrow> string \<Rightarrow> js_error + response" where
  "quota_thrice_then_result n img = (if n \<le> 3 then Inl rate_limited else Inr (Some sample_payload))"

text \<open>
  An image of 4 MiB of base64 characters, and the record that a save at time
  \<open>t\<close> builds when this image is stored as it is.
\<close>

definition huge_image :: string where
  "huge_image = replicate 4194304 (CHR ''A'')"

definition huge_record_at :: "int \<Rightarrow> json" where
  "huge_record_at t = MealRecord (show_int t) t huge_image sample_result snack"

text \<open>
  Saves of the sample result with a four-character image, one per millisecond from
  1700000000001 on: the arguments of the save at time \<open>t\<close> and the record it
  builds when the image is stored as it is.
\<close>

definition sample_save :: "int \<Rightarrow> save_args" where
  "sample_save t = (t, t, ''QUJD'', sample_result, snack)"

definition sample_record :: "int \<Rightarrow> json" where
  "sample_record t = MealRecord (show_int t) t ''QUJD'' sample_result snack"

definition sample_times :: "int list" where
  "sample_times = map (\<lambda>i. 1700000000000 + i) [1..21]"

text \<open>A storage that holds the records of the first ten sample saves, most recent first.\<close>

definition ten_records :: "json list" where
  "ten_records = map sample_record (rev (take 10 sample_times))"

definition storage_of_ten :: storage where
  "storage_of_ten =
     \<lparr>items = (\<lambda>key. if key = ''mealHistory'' then Some (JSON_stringify (JArr ten_records)) else None),
      quota = 5242880\<rparr>"

text \<open>
  The state of \<open>App\<close> (app.tsx) with an image under analysis and no record yet,
  the same state over a storage whose quota of 20 characters has no room for a record,
  and the record that \<open>handleSaveRecord\<close> builds from the sample result at time
  \<open>t\<close>.
\<close>

definition app_start :: app_state where
  "app_start = \<lparr>analysisImage = Some ''QUJD'', records = [], currentPage = home,
                 localStorage = empty_storage\<rparr>"

definition app_without_room :: app_state where
  "app_without_room =
     \<lparr>analysisImage = Some ''QUJD'', records = [], currentPage = home,
      localStorage = \<lparr>items = (\<lambda>key. None), quota = 20\<rparr>\<rparr>"

definition app_record :: "int \<Rightarrow> json" where
  "app_record t =
     JObj [(''foodName'', JStr ''Grilled Chicken Salad''), (''calories'', JNum 420),
           (''servingSize'', JStr ''1 bowl''),
           (''macros'', JObj [(''protein'', JNum 38), (''carbs'', JNum 12),
                             (''fat'', JNum 18), (''fiber'', JNum 5)]),
           (''healthAnalysis'', JStr ''Lean protein with vegetables.''), (''rating'', JNum 8),
           (''id'', JStr (show_int t)), (''timestamp'', JNum t), (''image'', JStr ''QUJD'')]"

section \<open>Host platform: properties\<close>

subsection \<open>\<open>JSON.parse\<close> inverts \<open>JSON.stringify\<close>\<close>

lemma digit_cases:
  "0 \<le> k \<Longrightarrow> k < 10 \<Longrightarrow>
     k = 0 \<or> k = 1 \<or> k = 2 \<or> k = 3 \<or> k = 4 \<or> k = 5 \<or> k = 6 \<or> k = 7 \<or> k = 8 \<or> k = (9::int)"
  by presburger

lemma digit_chars:
  "char_of (48 :: int) = CHR ''0''" "char_of (49 :: int) = CHR ''1''"
  "char_of (50 :: int) = CHR ''2''" "char_of (51 :: int) = CHR ''3''"
  "char_of (52 :: int) = CHR ''4''" "char_of (53 :: int) = CHR ''5''"
  "char_of (54 :: int) = CHR ''6''" "char_of (55 :: int) = CHR ''7''"
  "char_of (56 :: int) = CHR ''8''" "char_of (57 :: int) = CHR ''9''"
  by code_simp+

lemma digit_char_facts:
  assumes "0 \<le> k" "k < (10::int)"
  shows "is_digit (char_of (48 + k))"
    and "of_char (char_of (48 + k)) - 48 = k"
    and "char_of (48 + k) = CHR ''0'' \<longleftrightarrow> k = 0"
    and "char_of (48 + k) \<noteq> CHR ''-''"
  using digit_cases[OF assms] by (auto simp: is_digit_def less_eq_char_def digit_chars)

lemma digits_nonempty: "digits n \<noteq> []"
  by (subst digits.simps) simp

lemma digits_all_digit: "0 \<le> n \<Longrightarrow> list_all is_digit (digits n)"
proof (induction n rule: digits.induct)
  case (1 n)
  show ?case
  proof (cases "n < 10")
    case True
    with "1.prems" show ?thesis by (subst digits.simps) (simp add: digit_char_facts)
  next
    case False
    then have "0 \<le> n div 10" by simp
    with "1.IH" False have "list_all is_digit (digits (n div 10))" by simp
    moreover have "is_digit (char_of (48 + n mod 10))" by (rule digit_char_facts) simp_all
    ultimately show ?thesis using False by (subst digits.simps) simp
  qed
qed

lemma digits_val_snoc: "digits_val (ds @ [c]) = 10 * digits_val ds + (of_char c - 48)"
  by (simp add: digits_val_def)

lemma digits_val_digits: "0 \<le> n \<Longrightarrow> digits_val (digits n) = n"
proof (induction n rule: digits.induct)
  case (1 n)
  show ?case
  proof (cases "n < 10")
    case True
    with "1.prems" show ?thesis
      by (subst digits.simps) (simp add: digits_val_def digit_char_facts)
  next
    case False
    then have "0 \<le> n div 10" by simp
    with "1.IH" False have ih: "digits_val (digits (n div 10)) = n div 10" by simp
    have "of_char (char_of (48 + n mod 10)) - 48 = n mod 10" by (rule digit_char_facts) simp_all
    with ih False show ?thesis
      by (subst digits.simps) (simp add: digits_val_snoc)
  qed
qed

lemma digits_hd_nonzero: "1 \<le> n \<Longrightarrow> hd (digits n) \<noteq> CHR ''0''"
proof (induction n rule: digits.induct)
  case (1 n)
  show ?case
  proof (cases "n < 10")
    case True
    with "1.prems" show ?thesis by (subst digits.simps) (simp add: digit_char_facts)
  next
    case False
    then have "1 \<le> n div 10" by simp
    with "1.IH" False have "hd (digits (n div 10)) \<noteq> CHR ''0''" by simp
    with False show ?thesis by (subst digits.simps) (simp add: digits_nonempty)
  qed
qed

lemma digits_length_one: "0 \<le> n \<Longrightarrow> n < 10 \<Longrightarrow> length (digits n) = 1"
  by (subst digits.simps) simp

lemma digits_hd_digit: "0 \<le> n \<Longrightarrow> is_digit (hd (digits n))"
  using digits_all_digit[of n] digits_nonempty[of n]
  by (cases "digits n") simp_all

lemma follow_not_digit: "follow r \<Longrightarrow> takeWhile is_digit r = [] \<and> dropWhile is_digit r = r"
  by (cases r) (auto simp: follow_def is_digit_def less_eq_char_def)

lemma parse_nat_digits:
  assumes "0 \<le> n" "follow r"
  shows "parse_nat (digits n @ r) = Some (n, r)"
proof -
  have all: "\<forall>c\<in>set (digits n). is_digit c"
    using digits_all_digit[OF assms(1)] by (simp add: list_all_iff)
  have tw: "takeWhile is_digit (digits n @ r) = digits n"
    using all follow_not_digit[OF assms(2)] by (simp add: takeWhile_append2)
  have dw: "dropWhile is_digit (digits n @ r) = r"
    using all follow_not_digit[OF assms(2)] by (simp add: dropWhile_append2)
  have lead: "\<not> (hd (digits n) = CHR ''0'' \<and> length (digits n) > 1)"
  proof (cases "n < 10")
    case True
    with assms(1) show ?thesis by (simp add: digits_length_one)
  next
    case False
    then show ?thesis using digits_hd_nonzero[of n] by simp
  qed
  have fr: "\<not> (r \<noteq> [] \<and> (hd r = CHR ''.'' \<or> hd r = CHR ''e'' \<or> hd r = CHR ''E''))"
    using assms(2) by (auto simp: follow_def)
  show ?thesis
    using lead fr assms(1)
    by (simp add: parse_nat_def tw dw Let_def digits_nonempty digits_val_digits)
qed

lemma parse_number_show_int:
  assumes "follow r"
  shows "parse_number (show_int i @ r) = Some (JNum i, r)"
proof (cases "i < 0")
  case True
  then have "parse_nat (digits (- i) @ r) = Some (- i, r)"
    using parse_nat_digits[of "- i" r] assms by simp
  with True show ?thesis by (simp add: parse_number_def show_int_def)
next
  case False
  then have nn: "0 \<le> i" by simp
  obtain c cs where d: "digits i = c # cs" using digits_nonempty[of i] by (cases "digits i") auto
  have "is_digit c" using digits_hd_digit[OF nn] d by simp
  then have "c \<noteq> CHR ''-''" by (auto simp: is_digit_def less_eq_char_def)
  moreover have "parse_nat ((c # cs) @ r) = Some (i, r)"
    using parse_nat_digits[OF nn assms] d by simp
  ultimately show ?thesis using False d by (simp add: parse_number_def show_int_def)
qed

lemma hex_cases:
  "d < 16 \<Longrightarrow>
     d = 0 \<or> d = 1 \<or> d = 2 \<or> d = 3 \<or> d = 4 \<or> d = 5 \<or> d = 6 \<or> d = 7 \<or> d = 8 \<or>
     d = 9 \<or> d = 10 \<or> d = 11 \<or> d = 12 \<or> d = 13 \<or> d = 14 \<or> d = (15::nat)"
  by presburger

lemma hex_val_hex_digit_literal:
  "hex_val (hex_digit 0) = Some 0" "hex_val (hex_digit 1) = Some 1" "hex_val (hex_digit 2) = Some 2"
  "hex_val (hex_digit 3) = Some 3" "hex_val (hex_digit 4) = Some 4" "hex_val (hex_digit 5) = Some 5"
  "hex_val (hex_digit 6) = Some 6" "hex_val (hex_digit 7) = Some 7" "hex_val (hex_digit 8) = Some 8"
  "hex_val (hex_digit 9) = Some 9" "hex_val (hex_digit 10) = Some 10" "hex_val (hex_digit 11) = Some 11"
  "hex_val (hex_digit 12) = Some 12" "hex_val (hex_digit 13) = Some 13" "hex_val (hex_digit 14) = Some 14"
  "hex_val (hex_digit 15) = Some 15" "hex_val (hex_digit (Suc 0)) = Some (Suc 0)"
  by code_simp+

lemma hex_val_hex_digit: "d < 16 \<Longrightarrow> hex_val (hex_digit d) = Some d"
  using hex_cases[of d] by (auto simp: hex_val_hex_digit_literal)

lemma hex_val_zero: "hex_val (CHR ''0'') = Some 0"
  by code_simp

lemma unicode_escape_control:
  assumes "c < CHR 0x20"
  shows "unicode_escape [CHR ''0'', CHR ''0'', hex_digit (of_char c div 16), hex_digit (of_char c mod 16)] = Some c"
proof -
  have lt: "(of_char c :: nat) < 32" using assms by (simp add: less_char_def)
  then have "(of_char c :: nat) div 16 < 16" by simp
  then show ?thesis
    by (simp add: unicode_escape_def hex_val_zero hex_val_hex_digit)
qed

lemma quote_char_nonempty: "quote_char c \<noteq> []"
  by (simp add: quote_char_def)

lemma parse_chars_step:
  assumes "parse_chars m rest = Some (s, r)"
  shows "parse_chars (Suc m) (quote_char c @ rest) = Some (c # s, r)"
proof -
  consider (special) "c = CHR 0x22 \<or> c = CHR 0x5C \<or> c = CHR 0x08 \<or> c = CHR 0x09 \<or> c = CHR 0x0A \<or> c = CHR 0x0C \<or> c = CHR 0x0D"
    | (control) "\<not> (c = CHR 0x22 \<or> c = CHR 0x5C \<or> c = CHR 0x08 \<or> c = CHR 0x09 \<or> c = CHR 0x0A \<or> c = CHR 0x0C \<or> c = CHR 0x0D)" "c < CHR 0x20"
    | (plain) "\<not> (c = CHR 0x22 \<or> c = CHR 0x5C \<or> c = CHR 0x08 \<or> c = CHR 0x09 \<or> c = CHR 0x0A \<or> c = CHR 0x0C \<or> c = CHR 0x0D)" "\<not> c < CHR 0x20"
    by blast
  then show ?thesis
  proof cases
    case special
    with assms show ?thesis
      by (auto simp: quote_char_def simple_escape_def)
  next
    case control
    with assms show ?thesis
      by (simp add: quote_char_def unicode_escape_control)
  next
    case plain
    with assms show ?thesis
      by (simp add: quote_char_def)
  qed
qed

lemma parse_chars_quote:
  "length s < n \<Longrightarrow> parse_chars n (concat (map quote_char s) @ CHR 0x22 # r) = Some (s, r)"
proof (induction s arbitrary: n)
  case Nil
  then obtain m where "n = Suc m" by (cases n) auto
  then show ?case by simp
next
  case (Cons c s)
  then obtain m where n: "n = Suc m" and m: "length s < m" by (cases n) auto
  have "parse_chars m (concat (map quote_char s) @ CHR 0x22 # r) = Some (s, r)"
    by (rule Cons.IH[OF m])
  then show ?case using n by (simp add: parse_chars_step)
qed

lemma length_concat_quote_char: "length s \<le> length (concat (map quote_char s))"
proof (induction s)
  case Nil
  show ?case by simp
next
  case (Cons c s)
  have "1 \<le> length (quote_char c)" using quote_char_nonempty[of c] by (cases "quote_char c") simp_all
  with Cons show ?case by simp
qed

lemma parse_quoted:
  "parse_chars (length (concat (map quote_char s) @ CHR 0x22 # r)) (concat (map quote_char s) @ CHR 0x22 # r) = Some (s, r)"
  using length_concat_quote_char[of s] by (intro parse_chars_quote) simp

lemma skip_ws_Cons: "\<not> is_ws c \<Longrightarrow> skip_ws (c # cs) = c # cs"
  by (simp add: skip_ws_def)

lemma value_start_facts:
  assumes "value_start c"
  shows "\<not> is_ws c" "c \<noteq> CHR '']''" "c \<noteq> CHR ''}''"
  using assms by (auto simp: value_start_def is_ws_def is_digit_def less_eq_char_def)

lemma show_int_start: "\<exists>c cs. show_int i = c # cs \<and> (c = CHR ''-'' \<or> is_digit c)"
proof (cases "i < 0")
  case True
  then show ?thesis by (simp add: show_int_def)
next
  case False
  then have "is_digit (hd (digits i))" by (simp add: digits_hd_digit)
  with False show ?thesis using digits_nonempty[of i]
    by (cases "digits i") (simp_all add: show_int_def)
qed

lemma stringify_start: "\<exists>c cs. JSON_stringify v = c # cs \<and> value_start c"
proof (cases v)
  case (JNum i)
  then show ?thesis using show_int_start[of i]
    by (auto simp: JSON_stringify.simps value_start_def)
qed (auto simp: JSON_stringify.simps value_start_def quote_def)

lemma stringify_length: "1 \<le> length (JSON_stringify v)"
  using stringify_start[of v] by auto

lemma parse_value_scalar:
  "follow r \<Longrightarrow> parse_value (Suc n) (JSON_stringify JNull @ r) = Some (JNull, r)"
  "follow r \<Longrightarrow> parse_value (Suc n) (JSON_stringify (JBool b) @ r) = Some (JBool b, r)"
  by (simp_all add: JSON_stringify.simps skip_ws_Cons is_ws_def parse_literal_def)

lemma parse_value_number:
  assumes "follow r"
  shows "parse_value (Suc n) (JSON_stringify (JNum i) @ r) = Some (JNum i, r)"
proof -
  obtain c cs where s: "show_int i = c # cs" and c: "c = CHR ''-'' \<or> is_digit c"
    using show_int_start by blast
  from c have nws: "\<not> is_ws c" and nq: "c \<noteq> CHR 0x22" "c \<noteq> CHR ''[''" "c \<noteq> CHR ''{''"
    and nl: "c \<noteq> CHR ''t''" "c \<noteq> CHR ''f''" "c \<noteq> CHR ''n''"
    by (auto simp: is_ws_def is_digit_def less_eq_char_def)
  have "parse_literal (c # cs @ r) = parse_number (c # cs @ r)"
    using nl by (simp add: parse_literal_def)
  also have "\<dots> = Some (JNum i, r)"
    using parse_number_show_int[OF assms, of i] s by simp
  finally show ?thesis using s nws nq
    by (simp add: JSON_stringify.simps skip_ws_Cons)
qed

lemma parse_value_string:
  "parse_value (Suc n) (JSON_stringify (JStr s) @ r) = Some (JStr s, r)"
  using parse_quoted[of s r]
  by (simp add: JSON_stringify.simps quote_def skip_ws_Cons is_ws_def)

lemma parsesD:
  "parses v \<Longrightarrow> length (JSON_stringify v) \<le> n \<Longrightarrow> follow r
     \<Longrightarrow> parse_value n (JSON_stringify v @ r) = Some (v, r)"
  by (simp add: parses_def)

lemma follow_simps [simp]:
  "follow []" "follow (CHR '','' # r)" "follow (CHR '']'' # r)" "follow (CHR ''}'' # r)"
  by (simp_all add: follow_def)

lemma parse_elements_join:
  "xs \<noteq> [] \<Longrightarrow> (\<forall>x\<in>set xs. parses x) \<Longrightarrow>
     (\<forall>n. length (join '','' (map JSON_stringify xs)) < n \<longrightarrow>
        parse_elements n (join '','' (map JSON_stringify xs) @ CHR '']'' # r) = Some (xs, r))"
proof (induction xs rule: list_nonempty_induct)
  case (single x)
  show ?case
  proof (intro allI impI)
    fix n assume "length (join '','' (map JSON_stringify [x])) < n"
    then obtain k where n: "n = Suc k" and k: "length (JSON_stringify x) \<le> k"
      by (cases n) auto
    have "parse_value k (JSON_stringify x @ CHR '']'' # r) = Some (x, CHR '']'' # r)"
      using single k by (intro parsesD) simp_all
    then show "parse_elements n (join '','' (map JSON_stringify [x]) @ CHR '']'' # r) = Some ([x], r)"
      using n by (simp add: skip_ws_Cons is_ws_def)
  qed
next
  case (cons x xs)
  from cons.hyps obtain y ys where xs: "xs = y # ys" by (cases xs) auto
  show ?case
  proof (intro allI impI)
    fix n assume len: "length (join '','' (map JSON_stringify (x # xs))) < n"
    then obtain k where n: "n = Suc k" by (cases n) auto
    have j: "join '','' (map JSON_stringify (x # xs)) =
             JSON_stringify x @ CHR '','' # join '','' (map JSON_stringify xs)"
      by (simp add: xs)
    have j': "join '','' (JSON_stringify x # map JSON_stringify xs) =
             JSON_stringify x @ CHR '','' # join '','' (map JSON_stringify xs)"
      using j by simp
    from len n j have k1: "length (JSON_stringify x) \<le> k"
      and k2: "length (join '','' (map JSON_stringify xs)) < k" by simp_all
    have pv: "parse_value k (JSON_stringify x @ CHR '','' # join '','' (map JSON_stringify xs) @ CHR '']'' # r)
              = Some (x, CHR '','' # join '','' (map JSON_stringify xs) @ CHR '']'' # r)"
      using cons.prems k1 by (intro parsesD) simp_all
    have pe: "parse_elements k (join '','' (map JSON_stringify xs) @ CHR '']'' # r) = Some (xs, r)"
      using cons.IH cons.prems k2 by simp
    show "parse_elements n (join '','' (map JSON_stringify (x # xs)) @ CHR '']'' # r) = Some (x # xs, r)"
      using n pv pe by (simp add: j' skip_ws_Cons is_ws_def)
  qed
qed

lemma member_string_map:
  "map (\<lambda>(k, v). quote k @ '':'' @ JSON_stringify v) kvs = map member_string kvs"
  by (simp add: member_string_def case_prod_beta)

lemma stringify_object:
  "JSON_stringify (JObj kvs) = CHR ''{'' # join '','' (map member_string kvs) @ ''}''"
  by (simp only: JSON_stringify.simps member_string_map) simp

lemma parse_members_join:
  "kvs \<noteq> [] \<Longrightarrow> (\<forall>kv\<in>set kvs. parses (snd kv)) \<Longrightarrow>
     (\<forall>n. length (join '','' (map member_string kvs)) < n \<longrightarrow>
        parse_members n (join '','' (map member_string kvs) @ CHR ''}'' # r) = Some (kvs, r))"
proof (induction kvs rule: list_nonempty_induct)
  case (single kv)
  obtain key v where kv: "kv = (key, v)" by (cases kv)
  show ?case
  proof (intro allI impI)
    fix n assume "length (join '','' (map member_string [kv])) < n"
    then obtain k where n: "n = Suc k" and k: "length (JSON_stringify v) \<le> k"
      by (cases n) (auto simp: member_string_def kv)
    have pv: "parse_value k (JSON_stringify v @ CHR ''}'' # r) = Some (v, CHR ''}'' # r)"
      using single k by (intro parsesD) (simp_all add: kv)
    have pc: "parse_chars (length (concat (map quote_char key) @ CHR 0x22 # CHR '':'' # JSON_stringify v @ CHR ''}'' # r))
                (concat (map quote_char key) @ CHR 0x22 # CHR '':'' # JSON_stringify v @ CHR ''}'' # r)
              = Some (key, CHR '':'' # JSON_stringify v @ CHR ''}'' # r)"
      by (rule parse_quoted)
    show "parse_members n (join '','' (map member_string [kv]) @ CHR ''}'' # r) = Some ([kv], r)"
      using n pv pc by (simp add: kv member_string_def quote_def skip_ws_Cons is_ws_def)
  qed
next
  case (cons kv kvs)
  obtain key v where kv: "kv = (key, v)" by (cases kv)
  from cons.hyps obtain y ys where kvs: "kvs = y # ys" by (cases kvs) auto
  show ?case
  proof (intro allI impI)
    fix n assume len: "length (join '','' (map member_string (kv # kvs))) < n"
    then obtain k where n: "n = Suc k" by (cases n) auto
    let ?rest = "CHR '','' # join '','' (map member_string kvs) @ CHR ''}'' # r"
    have j: "join '','' (map member_string (kv # kvs)) @ CHR ''}'' # r =
             CHR 0x22 # concat (map quote_char key) @ CHR 0x22 # CHR '':'' # JSON_stringify v @ ?rest"
      by (simp add: kvs kv member_string_def quote_def)
    have jl: "length (join '','' (map member_string (kv # kvs))) =
              length (quote key) + 1 + length (JSON_stringify v) + 1 + length (join '','' (map member_string kvs))"
      by (simp add: kvs kv member_string_def)
    from len n jl have k1: "length (JSON_stringify v) \<le> k"
      and k2: "length (join '','' (map member_string kvs)) < k" by simp_all
    have pv: "parse_value k (JSON_stringify v @ ?rest) = Some (v, ?rest)"
      using cons.prems k1 by (intro parsesD) (simp_all add: kv)
    have pm: "parse_members k (join '','' (map member_string kvs) @ CHR ''}'' # r) = Some (kvs, r)"
      using cons.IH cons.prems k2 by simp
    have pc: "parse_chars (length (concat (map quote_char key) @ CHR 0x22 # CHR '':'' # JSON_stringify v @ ?rest))
                (concat (map quote_char key) @ CHR 0x22 # CHR '':'' # JSON_stringify v @ ?rest)
              = Some (key, CHR '':'' # JSON_stringify v @ ?rest)"
      by (rule parse_quoted)
    show "parse_members n (join '','' (map member_string (kv # kvs)) @ CHR ''}'' # r) = Some (kv # kvs, r)"
      unfolding j using n pv pm pc by (simp add: kv skip_ws_Cons is_ws_def)
  qed
qed

lemma join_start:
  "xs \<noteq> [] \<Longrightarrow> hd xs = c # cs \<Longrightarrow> \<exists>rest. join sep xs = c # rest"
  by (cases xs; cases "tl xs") auto

lemma parses_array:
  assumes "\<forall>x\<in>set xs. parses x"
  shows "parses (JArr xs)"
  unfolding parses_def
proof (intro allI impI)
  fix n r
  assume len: "length (JSON_stringify (JArr xs)) \<le> n" and "follow r"
  then obtain k where n: "n = Suc k" by (cases n) (auto simp: JSON_stringify.simps)
  show "parse_value n (JSON_stringify (JArr xs) @ r) = Some (JArr xs, r)"
  proof (cases "xs = []")
    case True
    then show ?thesis using n by (simp add: JSON_stringify.simps skip_ws_Cons is_ws_def)
  next
    case False
    from len n have k: "length (join '','' (map JSON_stringify xs)) < k"
      by (simp add: JSON_stringify.simps)
    have pe: "parse_elements k (join '','' (map JSON_stringify xs) @ CHR '']'' # r) = Some (xs, r)"
      using parse_elements_join[OF False assms] k by simp
    obtain c cs where "JSON_stringify (hd xs) = c # cs" and vs: "value_start c"
      using stringify_start by blast
    then have "hd (map JSON_stringify xs) = c # cs" using False by (simp add: hd_map)
    then obtain rest where j: "join '','' (map JSON_stringify xs) = c # rest"
      using join_start[of "map JSON_stringify xs" c cs "'',''"] False by auto
    show ?thesis
      using n pe value_start_facts[OF vs]
      by (simp add: JSON_stringify.simps skip_ws_Cons is_ws_def j)
  qed
qed

lemma parses_object:
  assumes "\<forall>kv\<in>set kvs. parses (snd kv)"
  shows "parses (JObj kvs)"
  unfolding parses_def
proof (intro allI impI)
  fix n r
  assume len: "length (JSON_stringify (JObj kvs)) \<le> n" and "follow r"
  then obtain k where n: "n = Suc k" by (cases n) (auto simp: stringify_object)
  show "parse_value n (JSON_stringify (JObj kvs) @ r) = Some (JObj kvs, r)"
  proof (cases "kvs = []")
    case True
    then show ?thesis using n by (simp add: stringify_object skip_ws_Cons is_ws_def)
  next
    case False
    from len n have k: "length (join '','' (map member_string kvs)) < k"
      by (simp add: stringify_object)
    have pm: "parse_members k (join '','' (map member_string kvs) @ CHR ''}'' # r) = Some (kvs, r)"
      using parse_members_join[OF False assms] k by simp
    have "hd (map member_string kvs) = CHR 0x22 # (concat (map quote_char (fst (hd kvs))) @ [CHR 0x22] @ '':'' @ JSON_stringify (snd (hd kvs)))"
      using False by (simp add: hd_map member_string_def quote_def)
    then obtain rest where j: "join '','' (map member_string kvs) = CHR 0x22 # rest"
      using join_start[of "map member_string kvs" "CHR 0x22" _ "'',''"] False by auto
    show ?thesis
      using n pm
      by (simp add: stringify_object skip_ws_Cons is_ws_def j)
  qed
qed

lemma parses_all: "parses v"
proof (induction v)
  case JNull
  show ?case unfolding parses_def
  proof (intro allI impI)
    fix n r assume "length (JSON_stringify JNull) \<le> n" "follow r"
    then show "parse_value n (JSON_stringify JNull @ r) = Some (JNull, r)"
      using parse_value_scalar(1)[of r] stringify_length[of JNull] by (cases n) auto
  qed
next
  case (JBool b)
  show ?case unfolding parses_def
  proof (intro allI impI)
    fix n r assume "length (JSON_stringify (JBool b)) \<le> n" "follow r"
    then show "parse_value n (JSON_stringify (JBool b) @ r) = Some (JBool b, r)"
      using parse_value_scalar(2)[of r] stringify_length[of "JBool b"] by (cases n) auto
  qed
next
  case (JNum i)
  show ?case unfolding parses_def
  proof (intro allI impI)
    fix n r assume "length (JSON_stringify (JNum i)) \<le> n" "follow r"
    then show "parse_value n (JSON_stringify (JNum i) @ r) = Some (JNum i, r)"
      using parse_value_number[of r] stringify_length[of "JNum i"] by (cases n) auto
  qed
next
  case (JStr s)
  show ?case unfolding parses_def
  proof (intro allI impI)
    fix n r assume "length (JSON_stringify (JStr s)) \<le> n" "follow r"
    then show "parse_value n (JSON_stringify (JStr s) @ r) = Some (JStr s, r)"
      using parse_value_string stringify_length[of "JStr s"] by (cases n) auto
  qed
next
  case (JArr xs)
  then show ?case by (intro parses_array) simp
next
  case (JObj kvs)
  then show ?case by (intro parses_object) auto
qed

lemma JSON_roundtrip: "JSON_parse (JSON_stringify v) = Inr v"
  using parsesD[OF parses_all, of v "Suc (length (JSON_stringify v))" "[]"]
  by (simp add: JSON_parse_def skip_ws_def)

section \<open>Retry policy: properties\<close>

lemma retry_loop_success:
  "int attempt \<le> maxRetries \<Longrightarrow> operation attempt = Inr v
     \<Longrightarrow> retry_loop operation maxRetries attempt = (Inr v, [Call attempt])"
  by (subst retry_loop.simps) simp

lemma retry_loop_fatal:
  "int attempt \<le> maxRetries \<Longrightarrow> operation attempt = Inl e \<Longrightarrow> \<not> retriable e
     \<Longrightarrow> retry_loop operation maxRetries attempt = (Inl e, [Call attempt])"
  by (subst retry_loop.simps) simp

lemma retry_loop_last:
  "int attempt = maxRetries \<Longrightarrow> operation attempt = Inl e
     \<Longrightarrow> retry_loop operation maxRetries attempt = (Inl e, [Call attempt])"
  by (subst retry_loop.simps) simp

lemma retry_loop_retry:
  "int attempt < maxRetries \<Longrightarrow> operation attempt = Inl e \<Longrightarrow> retriable e
     \<Longrightarrow> retry_loop operation maxRetries attempt =
        (fst (retry_loop operation maxRetries (Suc attempt)),
         Call attempt # Sleep (2 ^ attempt * 1000) # snd (retry_loop operation maxRetries (Suc attempt)))"
  by (subst retry_loop.simps) (simp split: prod.splits)

lemma retry_loop_none:
  "maxRetries < int attempt
     \<Longrightarrow> retry_loop operation maxRetries attempt = (Inl (new_Error ''Failed after multiple retries''), [])"
  by (subst retry_loop.simps) simp

lemma retry_loop_calls_from:
  "Call k \<in> set (snd (retry_loop operation maxRetries attempt)) \<Longrightarrow> attempt \<le> k"
proof (induction operation maxRetries attempt rule: retry_loop.induct)
  case (1 operation maxRetries attempt)
  show ?case
  proof (cases "int attempt \<le> maxRetries")
    case False
    with "1.prems" show ?thesis by (simp add: retry_loop_none)
  next
    case le: True
    show ?thesis
    proof (cases "operation attempt")
      case (Inr v)
      with le "1.prems" show ?thesis by (simp add: retry_loop_success)
    next
      case (Inl e)
      show ?thesis
      proof (cases "retriable e \<and> int attempt < maxRetries")
        case True
        with Inl "1.prems" have "k = attempt \<or> Call k \<in> set (snd (retry_loop operation maxRetries (Suc attempt)))"
          by (simp add: retry_loop_retry)
        with "1.IH"[OF le Inl True] show ?thesis by auto
      next
        case False
        with le Inl "1.prems" show ?thesis
          by (subst (asm) retry_loop.simps) (auto)
      qed
    qed
  qed
qed

lemma retry_loop_second_call:
  "Call (Suc n) \<in> set (snd (retry_loop operation maxRetries attempt)) \<Longrightarrow> attempt \<le> n
     \<Longrightarrow> \<exists>e. operation n = Inl e \<and> retriable e"
proof (induction operation maxRetries attempt rule: retry_loop.induct)
  case (1 operation maxRetries attempt)
  show ?case
  proof (cases "int attempt \<le> maxRetries")
    case False
    with "1.prems" show ?thesis by (simp add: retry_loop_none)
  next
    case le: True
    show ?thesis
    proof (cases "operation attempt")
      case (Inr v)
      with le "1.prems" show ?thesis by (simp add: retry_loop_success)
    next
      case (Inl e)
      show ?thesis
      proof (cases "retriable e \<and> int attempt < maxRetries")
        case True
        with Inl "1.prems" have in_rest: "Call (Suc n) \<in> set (snd (retry_loop operation maxRetries (Suc attempt)))"
          by (simp add: retry_loop_retry)
        show ?thesis
        proof (cases "n = attempt")
          case True
          with Inl \<open>retriable e \<and> int attempt < maxRetries\<close> show ?thesis by simp
        next
          case False
          with "1.prems" have "Suc attempt \<le> n" by simp
          with "1.IH"[OF le Inl True in_rest] show ?thesis by simp
        qed
      next
        case False
        with le Inl "1.prems" show ?thesis
          by (subst (asm) retry_loop.simps) (auto)
      qed
    qed
  qed
qed

lemma calls_simps [simp]:
  "calls [] = []"
  "calls (Call n # tr) = n # calls tr"
  "calls (Sleep d # tr) = calls tr"
  by (simp_all add: calls_def)

lemma classify_error_status: "status (classify_error e) = None"
  by (simp add: classify_error_def new_Error_def TypeError_def split: option.splits)

lemma classify_error_fresh: "\<exists>msg. classify_error e = new_Error msg \<or> classify_error e = TypeError msg"
  by (auto simp: classify_error_def split: option.splits)

lemma analyzeImage_error:
  "analyzeImage API_KEY generateContent img = Inl e
     \<Longrightarrow> status e = None \<and> (\<exists>msg. e = new_Error msg \<or> e = TypeError msg)"
  using classify_error_fresh
  by (auto simp: analyzeImage_def classify_error_status new_Error_def split: if_splits sum.splits)

lemma analyzeImageWithRetry_once:
  assumes "1 \<le> maxRetries"
  shows "analyzeImageWithRetry API_KEY service img maxRetries =
           (analyzeImage API_KEY (service 1) img, [Call 1])"
proof (cases "analyzeImage API_KEY (service 1) img")
  case (Inr v)
  with assms show ?thesis
    by (simp add: analyzeImageWithRetry_def retry_loop_success)
next
  case (Inl e)
  then have "\<not> retriable e" using analyzeImage_error[of API_KEY "service 1" img e]
    by (simp add: retriable_def)
  with assms Inl show ?thesis
    by (simp add: analyzeImageWithRetry_def retry_loop_fatal)
qed

text \<open>
  C1. A failure of the wrapped operation is retried only when its status is 429 (rate
  limit) or 503 (service unavailable). When the first failure has any other status
  (a bad request with status 400, for one), the run ends with that failure after a
  single call; and whenever call \<open>n + 1\<close> is made, call \<open>n\<close> failed with
  status 429 or 503. In \<open>analyzeImageWithRetry\<close> itself, a first answer of the
  service with status 400 is followed by no second call.
\<close>

theorem retry_only_on_429_or_503:
  "(\<forall>e. 1 \<le> maxRetries \<and> operation 1 = Inl e \<and> status e \<noteq> Some 429 \<and> status e \<noteq> Some 503
        \<longrightarrow> retry_loop operation maxRetries 1 = (Inl e, [Call 1]))
   \<and> (\<forall>n. 1 \<le> n \<and> Call (Suc n) \<in> set (snd (retry_loop operation maxRetries 1))
        \<longrightarrow> (\<exists>e. operation n = Inl e \<and> (status e = Some 429 \<or> status e = Some 503)))
   \<and> (\<forall>e. 1 \<le> maxRetries \<and> service 1 img = Inl e \<and> status e = Some 400
        \<longrightarrow> calls (snd (analyzeImageWithRetry API_KEY service img maxRetries)) = [1])"
proof (intro conjI allI impI)
  fix e
  assume "1 \<le> maxRetries \<and> operation 1 = Inl e \<and> status e \<noteq> Some 429 \<and> status e \<noteq> Some 503"
  then show "retry_loop operation maxRetries 1 = (Inl e, [Call 1])"
    using retry_loop_fatal[of 1 maxRetries operation e] by (simp add: retriable_def)
next
  fix n
  assume "1 \<le> n \<and> Call (Suc n) \<in> set (snd (retry_loop operation maxRetries 1))"
  then show "\<exists>e. operation n = Inl e \<and> (status e = Some 429 \<or> status e = Some 503)"
    using retry_loop_second_call[of n operation maxRetries 1] by (auto simp: retriable_def)
next
  fix e
  assume "1 \<le> maxRetries \<and> service 1 img = Inl e \<and> status e = Some 400"
  then show "calls (snd (analyzeImageWithRetry API_KEY service img maxRetries)) = [1]"
    by (simp add: analyzeImageWithRetry_once)
qed

theorem retry_only_on_429_or_503_witness:
  "retry_loop (\<lambda>n. (Inl bad_request :: js_error + json)) 3 1 = (Inl bad_request, [Call 1])
   \<and> Call 2 \<in> set (snd (retry_loop (\<lambda>n. if n = 1 then Inl rate_limited else Inr JNull) 3 1))
   \<and> status rate_limited = Some 429
   \<and> always_400 1 ''QUJD'' = Inl bad_request \<and> status bad_request = Some 400
   \<and> calls (snd (analyzeImageWithRetry (Some ''key'') always_400 ''QUJD'' 3)) = [1]"
proof -
  have a: "retry_loop (\<lambda>n. (Inl bad_request :: js_error + json)) 3 1 = (Inl bad_request, [Call 1])"
    using retry_only_on_429_or_503[of 3 "\<lambda>n. (Inl bad_request :: js_error + json)"]
    by (simp add: bad_request_def)
  have b: "retry_loop (\<lambda>n. if n = 1 then Inl rate_limited else Inr JNull) 3 1
             = (Inr JNull, [Call 1, Sleep 2000, Call 2])"
    by code_simp
  have d: "calls (snd (analyzeImageWithRetry (Some ''key'') always_400 ''QUJD'' 3)) = [1]"
    using retry_only_on_429_or_503[of 3 "\<lambda>n. (Inl bad_request :: js_error + json)"
        always_400 "''QUJD''" "Some ''key''"]
    by (simp add: always_400_def bad_request_def)
  with a b show ?thesis by (simp add: rate_limited_def always_400_def bad_request_def)
qed

lemma retry_loop_final_attempt:
  "int attempt = maxRetries \<Longrightarrow> snd (retry_loop operation maxRetries attempt) = [Call attempt]"
  by (subst retry_loop.simps) (simp split: sum.splits)

lemma retry_loop_step:
  "int attempt < maxRetries \<Longrightarrow> next = Suc attempt \<Longrightarrow>
     snd (retry_loop operation maxRetries attempt) = [Call attempt] \<or>
     snd (retry_loop operation maxRetries attempt) =
       Call attempt # Sleep (2 ^ attempt * 1000) # snd (retry_loop operation maxRetries next)"
  by (subst (1 2) retry_loop.simps) (simp split: sum.splits prod.splits)

lemma retry_loop_retry_next:
  "int attempt < maxRetries \<Longrightarrow> operation attempt = Inl e \<Longrightarrow> retriable e
     \<Longrightarrow> retry_loop operation maxRetries next = (r, tr) \<Longrightarrow> next = Suc attempt
     \<Longrightarrow> retry_loop operation maxRetries attempt = (r, Call attempt # Sleep (2 ^ attempt * 1000) # tr)"
  by (simp add: retry_loop_retry)

lemma retry_loop_three_traces:
  "snd (retry_loop operation 3 1) = [Call 1] \<or>
   snd (retry_loop operation 3 1) = [Call 1, Sleep 2000, Call 2] \<or>
   snd (retry_loop operation 3 1) = [Call 1, Sleep 2000, Call 2, Sleep 4000, Call 3]"
proof -
  have t3: "snd (retry_loop operation 3 3) = [Call 3]"
    using retry_loop_final_attempt[of 3 3 operation] by simp
  have t2: "snd (retry_loop operation 3 2) = [Call 2] \<or>
            snd (retry_loop operation 3 2) = [Call 2, Sleep 4000, Call 3]"
    using retry_loop_step[of 2 3 3 operation] t3 by simp
  have t1: "snd (retry_loop operation 3 1) = [Call 1] \<or>
            snd (retry_loop operation 3 1) = Call 1 # Sleep 2000 # snd (retry_loop operation 3 2)"
    using retry_loop_step[of 1 3 2 operation] by simp
  from t1 t2 show ?thesis by auto
qed

lemma retry_loop_three_failures:
  assumes "operation 1 = Inl e1" "retriable e1" "operation 2 = Inl e2" "retriable e2"
    and "operation 3 = Inl e3"
  shows "retry_loop operation 3 1 = (Inl e3, [Call 1, Sleep 2000, Call 2, Sleep 4000, Call 3])"
proof -
  have t3: "retry_loop operation 3 3 = (Inl e3, [Call 3])"
    using retry_loop_last[of 3 3 operation e3] assms by simp
  have t2: "retry_loop operation 3 2 = (Inl e3, [Call 2, Sleep 4000, Call 3])"
    using retry_loop_retry_next[of 2 3 operation e2 3, OF _ _ _ t3] assms by simp
  show ?thesis
    using retry_loop_retry_next[of 1 3 operation e1 2, OF _ _ _ t2] assms by simp
qed

text \<open>
  The loop taken alone, over any wrapped operation, with \<open>maxRetries = 3\<close>: a run
  makes at most three calls, its trace is an initial part of call 1, 2 s of sleep, call 2,
  4 s of sleep, call 3, and three failures with status 429 or 503 end it with the third
  failure after exactly that trace.
\<close>

lemma retry_loop_three_attempts:
  "prefix (snd (retry_loop operation 3 1)) [Call 1, Sleep 2000, Call 2, Sleep 4000, Call 3]
   \<and> length (calls (snd (retry_loop operation 3 1))) \<le> 3
   \<and> Call 4 \<notin> set (snd (retry_loop operation 3 1))
   \<and> (\<forall>e1 e2 e3.
         operation 1 = Inl e1 \<and> retriable e1 \<and> operation 2 = Inl e2 \<and> retriable e2 \<and>
         operation 3 = Inl e3 \<and> retriable e3
         \<longrightarrow> retry_loop operation 3 1 =
               (Inl e3, [Call 1, Sleep (2 ^ 1 * 1000), Call 2, Sleep (2 ^ 2 * 1000), Call 3]))"
proof (intro conjI allI impI)
  show "prefix (snd (retry_loop operation 3 1)) [Call 1, Sleep 2000, Call 2, Sleep 4000, Call 3]"
    using retry_loop_three_traces[of operation] by (auto simp: prefix_def)
  show "length (calls (snd (retry_loop operation 3 1))) \<le> 3"
    using retry_loop_three_traces[of operation] by auto
  show "Call 4 \<notin> set (snd (retry_loop operation 3 1))"
    using retry_loop_three_traces[of operation] by auto
next
  fix e1 e2 e3
  assume "operation 1 = Inl e1 \<and> retriable e1 \<and> operation 2 = Inl e2 \<and> retriable e2 \<and>
         operation 3 = Inl e3 \<and> retriable e3"
  then show "retry_loop operation 3 1 =
               (Inl e3, [Call 1, Sleep (2 ^ 1 * 1000), Call 2, Sleep (2 ^ 2 * 1000), Call 3])"
    using retry_loop_three_failures[of operation e1 e2 e3] by simp
qed

lemma analyzeImage_rate_limited:
  "generateContent img = Inl rate_limited
     \<Longrightarrow> analyzeImage (Some ''key'') generateContent img = Inl (new_Error msg_quota)"
proof -
  assume g: "generateContent img = Inl rate_limited"
  have "classify_error rate_limited = new_Error msg_quota" by code_simp
  with g show ?thesis by (simp add: analyzeImage_def analyzeImage_basic_def falsy_def)
qed

lemma analyzeImage_sample_payload:
  "generateContent img = Inr (Some sample_payload)
     \<Longrightarrow> analyzeImage (Some ''key'') generateContent img = Inr sample_result"
proof -
  assume g: "generateContent img = Inr (Some sample_payload)"
  have "sample_payload \<noteq> []"
    using stringify_length[of sample_result] by (auto simp: sample_payload_def)
  with g show ?thesis
    by (simp add: analyzeImage_def analyzeImage_basic_def falsy_def)
       (simp add: sample_payload_def JSON_roundtrip)
qed

text \<open>
  C5 does not hold of the program. The service answers the first three calls with
  status 429 and the fourth with a full result; \<open>maxRetries\<close> is 3, the default.
  \<open>analyzeImageWithRetry\<close> makes one call and fails with the quota error of
  \<open>analyzeImage\<close>: there is no sleep, no second and no third attempt. The error
  that reaches the loop is the one that \<open>analyzeImage\<close> builds in its
  \<open>catch\<close> block, which has no status. Run on the answers of the service as they
  are, the loop does what C5 says: call 1, 2 s of sleep, call 2, 4 s of sleep, call 3,
  then failure with the third error, the fourth call never made.
\<close>

theorem rate_limited_run_stops_after_one_call:
  "analyzeImageWithRetry (Some ''key'') quota_thrice_then_result ''QUJD'' 3 =
     (Inl (new_Error msg_quota), [Call 1])
   \<and> analyzeImage (Some ''key'') (quota_thrice_then_result 4) ''QUJD'' = Inr sample_result
   \<and> retry_loop (\<lambda>n. quota_thrice_then_result n ''QUJD'') 3 1 =
       (Inl rate_limited, [Call 1, Sleep 2000, Call 2, Sleep 4000, Call 3])"
proof (intro conjI)
  have "analyzeImage (Some ''key'') (quota_thrice_then_result 1) ''QUJD'' = Inl (new_Error msg_quota)"
    by (rule analyzeImage_rate_limited) (simp add: quota_thrice_then_result_def)
  then show "analyzeImageWithRetry (Some ''key'') quota_thrice_then_result ''QUJD'' 3 =
     (Inl (new_Error msg_quota), [Call 1])"
    by (simp add: analyzeImageWithRetry_once)
  show "analyzeImage (Some ''key'') (quota_thrice_then_result 4) ''QUJD'' = Inr sample_result"
    by (rule analyzeImage_sample_payload) (simp add: quota_thrice_then_result_def)
  have r: "retriable rate_limited" by (simp add: retriable_def rate_limited_def)
  show "retry_loop (\<lambda>n. quota_thrice_then_result n ''QUJD'') 3 1 =
       (Inl rate_limited, [Call 1, Sleep 2000, Call 2, Sleep 4000, Call 3])"
    by (rule retry_loop_three_failures[of _ rate_limited rate_limited])
       (simp_all add: quota_thrice_then_result_def r)
qed

lemma retry_loop_outcome:
  "int attempt \<le> maxRetries \<Longrightarrow>
     calls (snd (retry_loop operation maxRetries attempt)) \<noteq> [] \<and>
     fst (retry_loop operation maxRetries attempt) =
       operation (last (calls (snd (retry_loop operation maxRetries attempt))))"
proof (induction operation maxRetries attempt rule: retry_loop.induct)
  case (1 operation maxRetries attempt)
  note le = "1.prems"
  show ?case
  proof (cases "operation attempt")
    case (Inr v)
    with le show ?thesis by (simp add: retry_loop_success)
  next
    case (Inl e)
    show ?thesis
    proof (cases "retriable e \<and> int attempt < maxRetries")
      case True
      then have le': "int (Suc attempt) \<le> maxRetries" by simp
      note ih = "1.IH"[OF le Inl True le']
      from True Inl have "retry_loop operation maxRetries attempt =
          (fst (retry_loop operation maxRetries (Suc attempt)),
           Call attempt # Sleep (2 ^ attempt * 1000) # snd (retry_loop operation maxRetries (Suc attempt)))"
        by (simp add: retry_loop_retry)
      with ih show ?thesis by simp
    next
      case False
      with le Inl have "retry_loop operation maxRetries attempt = (Inl e, [Call attempt])"
        by (subst retry_loop.simps) auto
      with Inl show ?thesis by simp
    qed
  qed
qed

text \<open>
  C9, as the code has it. A run that is allowed at least one attempt makes at least one
  call, and its outcome is the outcome of the last call it makes: when the run fails, it
  fails with the error of that call itself, rethrown as it is, not wrapped in another
  error. This holds of the loop over any wrapped operation, and so of
  \<open>analyzeImageWithRetry\<close>, whose calls are calls of \<open>analyzeImage\<close>. The
  error \<open>Failed after multiple retries\<close> after the loop is what a run with
  \<open>maxRetries\<close> below 1 fails with, without making a call; it carries no other
  error.
\<close>

theorem exhausted_rethrows_last_error:
  "(1 \<le> maxRetries \<longrightarrow>
      calls (snd (retry_loop operation maxRetries 1)) \<noteq> [] \<and>
      fst (retry_loop operation maxRetries 1) =
        operation (last (calls (snd (retry_loop operation maxRetries 1)))) \<and>
      calls (snd (analyzeImageWithRetry API_KEY service img maxRetries)) \<noteq> [] \<and>
      fst (analyzeImageWithRetry API_KEY service img maxRetries) =
        analyzeImage API_KEY
          (service (last (calls (snd (analyzeImageWithRetry API_KEY service img maxRetries))))) img)
   \<and> (maxRetries < 1 \<longrightarrow>
        retry_loop operation maxRetries 1 =
          (Inl (new_Error ''Failed after multiple retries''), []) \<and>
        analyzeImageWithRetry API_KEY service img maxRetries =
          (Inl (new_Error ''Failed after multiple retries''), []))"
proof (intro conjI impI)
  assume a: "1 \<le> maxRetries"
  then have le: "int 1 \<le> maxRetries" by simp
  show "calls (snd (retry_loop operation maxRetries 1)) \<noteq> []"
    and "fst (retry_loop operation maxRetries 1) =
        operation (last (calls (snd (retry_loop operation maxRetries 1))))"
    using retry_loop_outcome[OF le, of operation] by simp_all
  show "calls (snd (analyzeImageWithRetry API_KEY service img maxRetries)) \<noteq> []"
    and "fst (analyzeImageWithRetry API_KEY service img maxRetries) =
        analyzeImage API_KEY
          (service (last (calls (snd (analyzeImageWithRetry API_KEY service img maxRetries))))) img"
    using retry_loop_outcome[OF le, of "\<lambda>attempt. analyzeImage API_KEY (service attempt) img"]
    by (simp_all add: analyzeImageWithRetry_def)
next
  assume "maxRetries < 1"
  then show "retry_loop operation maxRetries 1 =
          (Inl (new_Error ''Failed after multiple retries''), [])"
    and "analyzeImageWithRetry API_KEY service img maxRetries =
          (Inl (new_Error ''Failed after multiple retries''), [])"
    by (simp_all add: analyzeImageWithRetry_def retry_loop_none)
qed

theorem exhausted_rethrows_last_error_witness:
  "calls (snd (analyzeImageWithRetry (Some ''key'') always_429 ''QUJD'' 3)) = [1]
   \<and> analyzeImage (Some ''key'') (always_429 1) ''QUJD'' = Inl (new_Error msg_quota)
   \<and> fst (analyzeImageWithRetry (Some ''key'') always_429 ''QUJD'' 3) = Inl (new_Error msg_quota)
   \<and> calls (snd (retry_loop (\<lambda>n. quota_thrice_then_result n ''QUJD'') 3 1)) = [1, 2, 3]
   \<and> quota_thrice_then_result 3 ''QUJD'' = Inl rate_limited
   \<and> fst (retry_loop (\<lambda>n. quota_thrice_then_result n ''QUJD'') 3 1) = Inl rate_limited
   \<and> analyzeImageWithRetry (Some ''key'') always_429 ''QUJD'' 0 =
       (Inl (new_Error ''Failed after multiple retries''), [])"
proof -
  have one: "analyzeImage (Some ''key'') (always_429 1) ''QUJD'' = Inl (new_Error msg_quota)"
    by (rule analyzeImage_rate_limited) (simp add: always_429_def)
  then have run: "analyzeImageWithRetry (Some ''key'') always_429 ''QUJD'' 3 =
                    (Inl (new_Error msg_quota), [Call 1])"
    by (simp add: analyzeImageWithRetry_once)
  have r: "retriable rate_limited" by (simp add: retriable_def rate_limited_def)
  have loop: "retry_loop (\<lambda>n. quota_thrice_then_result n ''QUJD'') 3 1 =
       (Inl rate_limited, [Call 1, Sleep 2000, Call 2, Sleep 4000, Call 3])"
    by (rule retry_loop_three_failures[of _ rate_limited rate_limited])
       (simp_all add: quota_thrice_then_result_def r)
  have three: "quota_thrice_then_result 3 ''QUJD'' = Inl rate_limited"
    by (simp add: quota_thrice_then_result_def)
  show ?thesis
    using exhausted_rethrows_last_error[of 3 "\<lambda>n. quota_thrice_then_result n ''QUJD''"
        "Some ''key''" always_429 "''QUJD''"]
      exhausted_rethrows_last_error[of 0 "\<lambda>n. quota_thrice_then_result n ''QUJD''"
        "Some ''key''" always_429 "''QUJD''"]
      one run loop three
    by simp
qed

text \<open>
  C9 as stated fails. The service answers every call with status 429 and
  \<open>maxRetries\<close> is 3: the run of \<open>analyzeImageWithRetry\<close> fails with the
  error that its call of \<open>analyzeImage\<close> threw, the quota error, which is neither
  the error raised after the loop nor an error of another name that would carry it.
\<close>

theorem exhausted_is_not_wrapped_counterexample:
  "analyzeImageWithRetry (Some ''key'') always_429 ''QUJD'' 3 =
     (Inl (new_Error msg_quota), [Call 1])
   \<and> analyzeImage (Some ''key'') (always_429 1) ''QUJD'' = Inl (new_Error msg_quota)
   \<and> name (new_Error msg_quota) = ''Error''
   \<and> name (new_Error msg_quota) \<noteq> ''RetriesExhaustedError''
   \<and> new_Error msg_quota \<noteq> new_Error ''Failed after multiple retries''"
proof -
  have one: "analyzeImage (Some ''key'') (always_429 1) ''QUJD'' = Inl (new_Error msg_quota)"
    by (rule analyzeImage_rate_limited) (simp add: always_429_def)
  then have run: "analyzeImageWithRetry (Some ''key'') always_429 ''QUJD'' 3 =
                    (Inl (new_Error msg_quota), [Call 1])"
    by (simp add: analyzeImageWithRetry_once)
  from one run show ?thesis by (simp add: new_Error_def msg_quota_def)
qed

text \<open>
  C6. Every failure of \<open>analyzeImage\<close> is a freshly built error without a status
  (a \<open>new Error\<close> with a rewritten message, or the TypeError of the classifier
  itself). So in \<open>analyzeImageWithRetry\<close> the test for status 503 or 429 is false:
  with \<open>maxRetries\<close> at least 1 exactly one call is made and its outcome is the
  outcome of the run.
\<close>

theorem analyzeImage_errors_are_never_retried:
  "(\<forall>e. analyzeImage API_KEY generateContent img = Inl e
        \<longrightarrow> status e = None \<and> (\<exists>msg. e = new_Error msg \<or> e = TypeError msg))
   \<and> (1 \<le> maxRetries
        \<longrightarrow> analyzeImageWithRetry API_KEY service img maxRetries =
              (analyzeImage API_KEY (service 1) img, [Call 1]))"
proof (intro conjI allI impI)
  fix e
  assume "analyzeImage API_KEY generateContent img = Inl e"
  then show "status e = None" and "\<exists>msg. e = new_Error msg \<or> e = TypeError msg"
    using analyzeImage_error by blast+
next
  assume "1 \<le> maxRetries"
  then show "analyzeImageWithRetry API_KEY service img maxRetries =
              (analyzeImage API_KEY (service 1) img, [Call 1])"
    by (rule analyzeImageWithRetry_once)
qed

theorem analyzeImage_errors_are_never_retried_witness:
  "analyzeImage (Some ''key'') (always_429 1) ''QUJD'' = Inl (new_Error msg_quota)
   \<and> status (new_Error msg_quota) = None
   \<and> analyzeImageWithRetry (Some ''key'') always_429 ''QUJD'' 3 = (Inl (new_Error msg_quota), [Call 1])"
proof -
  have a: "analyzeImage (Some ''key'') (always_429 1) ''QUJD'' = Inl (new_Error msg_quota)"
    by code_simp
  show ?thesis
    using analyzeImage_errors_are_never_retried[of "Some ''key''" "always_429 1" "''QUJD''" 3 always_429] a
    by simp
qed

section \<open>Inference client: properties\<close>

text \<open>
  C3 as stated fails: a payload that is valid JSON and lacks required fields is
  returned as the result by both variants of \<open>analyzeImage\<close>.
\<close>

theorem missing_fields_accepted_counterexample:
  "analyzeImage_basic (answers_partial ''QUJD'') =
     Inr (JObj [(''foodName'', JStr ''Rice''), (''calories'', JNum 200)])
   \<and> analyzeImage (Some ''key'') answers_partial ''QUJD'' =
     Inr (JObj [(''foodName'', JStr ''Rice''), (''calories'', JNum 200)])
   \<and> \<not> has_required_fields (JObj [(''foodName'', JStr ''Rice''), (''calories'', JNum 200)])"
  by code_simp

lemma classify_no_response:
  "classify_error (new_Error ''No response from AI'') = new_Error (msg_failed ''No response from AI'')"
  by code_simp

text \<open>
  C3, as the code has it. A response without text, or with empty text, fails with
  the error \<open>No response from AI\<close>; a text that \<open>JSON.parse\<close> refuses fails
  with the error of the parse. In the retry-enabled variant both errors are thrown
  inside the \<open>try\<close> and leave through the classifier: the first becomes the
  generic analysis failure carrying the same message, the second is classified by its
  message. Every text that parses is returned as the result as it is: no field is
  checked and none is filled in.
\<close>

theorem analyze_response_handling:
  "(falsy text \<longrightarrow>
      analyzeImage_basic (Inr text) = Inl (new_Error ''No response from AI'') \<and>
      (\<not> falsy API_KEY \<and> generateContent img = Inr text \<longrightarrow>
         analyzeImage API_KEY generateContent img =
           Inl (new_Error (msg_failed ''No response from AI''))))
   \<and> (\<forall>t e. text = Some t \<and> t \<noteq> [] \<and> JSON_parse t = Inl e \<longrightarrow>
         analyzeImage_basic (Inr text) = Inl e \<and>
         (\<not> falsy API_KEY \<and> generateContent img = Inr text \<longrightarrow>
            analyzeImage API_KEY generateContent img = Inl (classify_error e)))
   \<and> (\<forall>t v. text = Some t \<and> t \<noteq> [] \<and> JSON_parse t = Inr v \<longrightarrow>
         analyzeImage_basic (Inr text) = Inr v \<and>
         (\<not> falsy API_KEY \<and> generateContent img = Inr text \<longrightarrow>
            analyzeImage API_KEY generateContent img = Inr v))"
  by (auto simp: analyzeImage_basic_def analyzeImage_def falsy_def classify_no_response)

theorem analyze_response_handling_witness:
  "analyzeImage_basic (Inr None) = Inl (new_Error ''No response from AI'')
   \<and> analyzeImage (Some ''key'') (\<lambda>img. Inr (Some [])) ''QUJD'' =
       Inl (new_Error (msg_failed ''No response from AI''))
   \<and> JSON_parse ''{not json'' = Inl json_syntax_error
   \<and> analyzeImage_basic (Inr (Some ''{not json'')) = Inl json_syntax_error
   \<and> analyzeImage (Some ''key'') (\<lambda>img. Inr (Some ''{not json'')) ''QUJD'' =
       Inl (classify_error json_syntax_error)
   \<and> JSON_parse ''{}'' = Inr (JObj [])
   \<and> analyzeImage_basic (Inr (Some ''{}'')) = Inr (JObj [])
   \<and> analyzeImage (Some ''key'') (\<lambda>img. Inr (Some ''{}'')) ''QUJD'' = Inr (JObj [])"
proof -
  have p1: "JSON_parse ''{not json'' = Inl json_syntax_error" by code_simp
  have p2: "JSON_parse ''{}'' = Inr (JObj [])" by code_simp
  show ?thesis
    using analyze_response_handling[of None "Some ''key''" "\<lambda>img. Inr None" "''QUJD''"]
      analyze_response_handling[of "Some []" "Some ''key''" "\<lambda>img. Inr (Some [])" "''QUJD''"]
      analyze_response_handling[of "Some ''{not json''" "Some ''key''" "\<lambda>img. Inr (Some ''{not json'')" "''QUJD''"]
      analyze_response_handling[of "Some ''{}''" "Some ''key''" "\<lambda>img. Inr (Some ''{}'')" "''QUJD''"]
      p1 p2
    by (simp add: falsy_def)
qed

section \<open>Image codec helper: properties\<close>

text \<open>
  C4. \<open>compressImage\<close> always resolves, and when the image fails to load it
  resolves with the input itself.
\<close>

theorem compressImage_never_raises:
  "(\<exists>s. compressImage br base64 maxWidth quality = Inr s)
   \<and> (loadImage br (''data:image/jpeg;base64,'' @ base64) = None
        \<longrightarrow> compressImage br base64 maxWidth quality = Inr base64)"
  by (auto simp: compressImage_def split: option.splits prod.splits)

theorem compressImage_never_raises_witness:
  "loadImage no_decoder (''data:image/jpeg;base64,'' @ ''QUJD'') = None
   \<and> compressImage no_decoder ''QUJD'' 800 0.8 = Inr ''QUJD''"
  using compressImage_never_raises[of no_decoder "''QUJD''" 800 "0.8"]
  by (simp add: no_decoder_def)

subsection \<open>Rounding\<close>






























text \<open>
  Where the rounding shows: a square of 97 pixels under \<open>maxWidth = 800\<close> gets a
  canvas of 799 pixels, because \<open>97 * (800 / 97)\<close> is \<open>799.9999999999999\<close> in
  doubles; a photo of 3088 by 2316 pixels gets 799 by 600.
\<close>

lemma canvas_size_rounding:
  "canvas_size 800 97 97 = (799, 799) \<and> canvas_size 800 3088 2316 = (799, 600)"
  by code_simp

subsection \<open>The scale factor\<close>









section \<open>History store: properties\<close>

lemma parse_empty_array: "JSON_parse ''[]'' = Inr (JArr [])"
  by code_simp

lemma compressImage_total: "\<exists>s. compressImage br base64 maxWidth quality = Inr s"
  by (auto simp: compressImage_def split: option.splits prod.splits)

lemma setItem_fits:
  "length key + length data \<le> quota st
     \<Longrightarrow> setItem st key data = Inr (st\<lparr>items := (items st)(key \<mapsto> data)\<rparr>)"
  by (simp add: setItem_def)

lemma saveMealRecord_try_eq:
  assumes "JSON_parse (or_default (getItem st ''mealHistory'') ''[]'') = Inr (JArr existing)"
    and "compressImage br img 200 0.7 = Inr storageImage"
    and "updated = take 20 (MealRecord (show_int now_id) now_ts storageImage result mt # existing)"
  shows "saveMealRecord_try br now_id now_ts st img result mt =
           (if length (JSON_stringify (JArr updated)) > 4194304
            then setItem st ''mealHistory'' (JSON_stringify (JArr (take 10 updated)))
            else setItem st ''mealHistory'' (JSON_stringify (JArr updated)))"
proof -
  obtain apiImage where "compressImage br img 800 0.8 = Inr apiImage"
    using compressImage_total by blast
  with assms show ?thesis
    by (simp add: saveMealRecord_try_def js_spread_def Let_def)
qed

lemma saveMealRecord_within_budget:
  assumes "JSON_parse (or_default (getItem st ''mealHistory'') ''[]'') = Inr (JArr existing)"
    and "compressImage br img 200 0.7 = Inr storageImage"
    and "updated = take 20 (MealRecord (show_int now_id) now_ts storageImage result mt # existing)"
    and "length (JSON_stringify (JArr updated)) \<le> 4194304"
    and "length ''mealHistory'' + length (JSON_stringify (JArr updated)) \<le> quota st"
  shows "saveMealRecord br now_id now_ts st img result mt =
           Inr (st\<lparr>items := (items st)(''mealHistory'' \<mapsto> JSON_stringify (JArr updated))\<rparr>)"
  using assms(4,5) saveMealRecord_try_eq[OF assms(1,2,3)]
  by (simp add: saveMealRecord_def setItem_def)

lemma saveMealRecord_over_budget:
  assumes "JSON_parse (or_default (getItem st ''mealHistory'') ''[]'') = Inr (JArr existing)"
    and "compressImage br img 200 0.7 = Inr storageImage"
    and "updated = take 20 (MealRecord (show_int now_id) now_ts storageImage result mt # existing)"
    and "4194304 < length (JSON_stringify (JArr updated))"
    and "length ''mealHistory'' + length (JSON_stringify (JArr (take 10 updated))) \<le> quota st"
  shows "saveMealRecord br now_id now_ts st img result mt =
           Inr (st\<lparr>items := (items st)(''mealHistory'' \<mapsto> JSON_stringify (JArr (take 10 updated)))\<rparr>)"
  using assms(4,5) saveMealRecord_try_eq[OF assms(1,2,3)]
  by (simp add: saveMealRecord_def setItem_def)

lemma getMealHistory_total: "\<exists>v. getMealHistory st = Inr v"
  by (simp add: getMealHistory_def split: sum.splits)

lemma getMealHistory_corrupted:
  "getItem st ''mealHistory'' = Some d \<Longrightarrow> JSON_parse d = Inl e \<Longrightarrow> getMealHistory st = Inr (JArr [])"
  by (cases "d = []") (simp_all add: getMealHistory_def or_default_def falsy_def parse_empty_array)

lemma getMealHistory_absent:
  "getItem st ''mealHistory'' = None \<Longrightarrow> getMealHistory st = Inr (JArr [])"
  by (simp add: getMealHistory_def or_default_def falsy_def parse_empty_array)

lemma loadData_total: "\<exists>v. loadData st = Inr v"
  by (simp add: loadData_def Let_def split: sum.splits)

lemma loadData_corrupted:
  "getItem st STORAGE_KEY = Some d \<Longrightarrow> JSON_parse d = Inl e \<Longrightarrow> loadData st = Inr (JArr [])"
  by (simp add: loadData_def Let_def falsy_def)

lemma loadData_absent:
  "getItem st STORAGE_KEY = None \<Longrightarrow> loadData st = Inr (JArr [])"
  by (simp add: loadData_def Let_def falsy_def)

text \<open>
  C8. \<open>getMealHistory\<close> and \<open>loadData\<close> always return a value. When the
  slot holds text that \<open>JSON.parse\<close> refuses, and when the slot is absent, they
  return the empty array.
\<close>

theorem load_never_raises:
  "(\<exists>v. getMealHistory st = Inr v)
   \<and> (\<forall>d e. getItem st ''mealHistory'' = Some d \<and> JSON_parse d = Inl e
          \<longrightarrow> getMealHistory st = Inr (JArr []))
   \<and> (getItem st ''mealHistory'' = None \<longrightarrow> getMealHistory st = Inr (JArr []))
   \<and> (\<exists>v. loadData st = Inr v)
   \<and> (\<forall>d e. getItem st STORAGE_KEY = Some d \<and> JSON_parse d = Inl e
          \<longrightarrow> loadData st = Inr (JArr []))
   \<and> (getItem st STORAGE_KEY = None \<longrightarrow> loadData st = Inr (JArr []))"
  using getMealHistory_total getMealHistory_corrupted getMealHistory_absent
    loadData_total loadData_corrupted loadData_absent
  by blast

theorem load_never_raises_witness:
  "getItem corrupted_storage ''mealHistory'' = Some ''{not json''
   \<and> getItem corrupted_storage STORAGE_KEY = Some ''{not json''
   \<and> JSON_parse ''{not json'' = Inl json_syntax_error
   \<and> getMealHistory corrupted_storage = Inr (JArr [])
   \<and> loadData corrupted_storage = Inr (JArr [])
   \<and> getItem empty_storage ''mealHistory'' = None
   \<and> getItem empty_storage STORAGE_KEY = None
   \<and> getMealHistory empty_storage = Inr (JArr [])
   \<and> loadData empty_storage = Inr (JArr [])"
proof -
  have p: "JSON_parse ''{not json'' = Inl json_syntax_error" by code_simp
  show ?thesis
    using load_never_raises[of corrupted_storage] load_never_raises[of empty_storage] p
    by (simp add: corrupted_storage_def empty_storage_def getItem_def)
qed

subsection \<open>Saving\<close>

lemma concat_replicate_single: "concat (replicate n [x]) = replicate n x"
  by (induction n) simp_all

lemma quote_char_A: "quote_char (CHR ''A'') = ''A''"
  by code_simp

lemma length_quote_huge_image: "length (quote huge_image) = 4194306"
  by (simp add: quote_def huge_image_def quote_char_A concat_replicate_single)

lemma length_quote_empty: "length (quote []) = 2"
  by (simp add: quote_def)

lemma length_record_image:
  "length (JSON_stringify (JArr (MealRecord i t img r m # xs))) + length (quote []) =
   length (quote img) + length (JSON_stringify (JArr (MealRecord i t [] r m # xs)))"
  by (cases xs) (simp_all add: MealRecord_def JSON_stringify.simps)

lemma length_small_record:
  "length (JSON_stringify (JArr [MealRecord (show_int 1700000000000) 1700000000000 [] sample_result snack])) = 278"
  by code_simp

lemma length_huge_record: "length (JSON_stringify (JArr [huge_record_at 1700000000000])) = 4194582"
  using length_record_image[of "show_int 1700000000000" 1700000000000 huge_image sample_result snack "[]"]
  by (simp add: huge_record_at_def length_quote_huge_image length_quote_empty length_small_record)

lemma take_append_take: "take n (xs @ take n ys) = take n (xs @ ys)"
  by (simp add: min_def)

lemma stringify_nonempty: "JSON_stringify v \<noteq> []"
  using stringify_length[of v] by auto

text \<open>What a slot reads as, given what \<open>JSON.parse\<close> makes of the text stored in it.\<close>

lemma stored_payload_reads:
  "getItem st ''mealHistory'' = Some (JSON_stringify v) \<Longrightarrow> JSON_parse (JSON_stringify v) = Inr w
     \<Longrightarrow> JSON_parse (or_default (getItem st ''mealHistory'') ''[]'') = Inr w"
  by (simp add: or_default_def falsy_def stringify_nonempty)

lemma stored_payload_parses:
  "getItem st ''mealHistory'' = Some (JSON_stringify v)
     \<Longrightarrow> JSON_parse (or_default (getItem st ''mealHistory'') ''[]'') = Inr v"
  by (simp add: or_default_def falsy_def stringify_nonempty JSON_roundtrip)

lemma loadData_reads:
  "getItem st STORAGE_KEY = Some (JSON_stringify v) \<Longrightarrow> JSON_parse (JSON_stringify v) = Inr w
     \<Longrightarrow> loadData st = Inr w"
  by (simp add: loadData_def Let_def falsy_def stringify_nonempty)

lemma loadData_stored:
  "getItem st STORAGE_KEY = Some (JSON_stringify v) \<Longrightarrow> loadData st = Inr v"
  by (simp add: loadData_def Let_def falsy_def stringify_nonempty JSON_roundtrip)

lemma getMealHistory_reads:
  "JSON_parse (or_default (getItem st ''mealHistory'') ''[]'') = Inr v \<Longrightarrow> getMealHistory st = Inr v"
  by (simp add: getMealHistory_def)

lemma getMealHistory_stored:
  "getItem st ''mealHistory'' = Some (JSON_stringify v) \<Longrightarrow> getMealHistory st = Inr v"
  by (simp add: getMealHistory_def or_default_def falsy_def stringify_nonempty JSON_roundtrip)

lemma record_of_eq:
  "compressImage br img 200 0.7 = Inr storageImage
     \<Longrightarrow> record_of br (now_id, now_ts, img, result, mt) =
           MealRecord (show_int now_id) now_ts storageImage result mt"
  by simp

lemma length_join:
  "length (join sep xs) = sum_list (map length xs) + length sep * (length xs - 1)"
  by (induction sep xs rule: join.induct) simp_all

lemma sum_list_bound:
  "(\<forall>x\<in>set xs. f x \<le> (L::nat)) \<Longrightarrow> sum_list (map f xs) \<le> length xs * L"
  by (induction xs) auto

lemma length_stringify_array_le:
  assumes "\<forall>x\<in>set c. length (JSON_stringify x) \<le> L"
  shows "length (JSON_stringify (JArr c)) \<le> 2 + length c * (L + 1)"
proof -
  have "sum_list (map length (map JSON_stringify c)) \<le> length c * L"
    using sum_list_bound[of c "\<lambda>x. length (JSON_stringify x)" L] assms by (simp add: comp_def)
  then show ?thesis
    by (simp add: JSON_stringify.simps length_join)
qed

lemma sample_record_lengths:
  "list_all (\<lambda>t. length (JSON_stringify (sample_record t)) \<le> 300) sample_times"
  by code_simp

lemma sample_times_length: "length sample_times = 21"
  by code_simp

lemma record_of_sample: "record_of no_decoder (sample_save t) = sample_record t"
  by (simp add: sample_save_def sample_record_def compressImage_def no_decoder_def)

lemma sample_records_small:
  "x \<in> set (take 20 (rev (map (record_of no_decoder) (take k (map sample_save sample_times))) @ []))
     \<Longrightarrow> length (JSON_stringify x) \<le> 300"
proof -
  assume "x \<in> set (take 20 (rev (map (record_of no_decoder) (take k (map sample_save sample_times))) @ []))"
  then have "x \<in> set (map (record_of no_decoder) (take k (map sample_save sample_times)))"
    using set_take_subset by fastforce
  then have "x \<in> sample_record ` set (take k sample_times)"
    by (simp add: take_map comp_def record_of_sample)
  then obtain t where "t \<in> set sample_times" "x = sample_record t"
    using set_take_subset by fastforce
  then show ?thesis using sample_record_lengths by (simp add: list_all_iff)
qed

lemma ten_records_length: "length ten_records = 10"
  by (simp add: ten_records_def sample_times_length)

lemma ten_records_small: "x \<in> set ten_records \<Longrightarrow> length (JSON_stringify x) \<le> 300"
proof -
  assume "x \<in> set ten_records"
  then have "x \<in> sample_record ` set (take 10 sample_times)"
    by (simp add: ten_records_def)
  then obtain t where "t \<in> set sample_times" "x = sample_record t"
    using set_take_subset by fastforce
  then show ?thesis using sample_record_lengths by (simp add: list_all_iff)
qed

lemma storage_of_ten_parses:
  "JSON_parse (or_default (getItem storage_of_ten ''mealHistory'') ''[]'') = Inr (JArr ten_records)"
  by (intro stored_payload_parses) (simp add: storage_of_ten_def getItem_def)

lemma compress_huge: "compressImage no_decoder huge_image 200 0.7 = Inr huge_image"
  by (simp add: compressImage_def no_decoder_def)

lemma length_imageless_record:
  "length (JSON_stringify (MealRecord (show_int 1700000000011) 1700000000011 [] sample_result snack)) \<le> 300"
  by code_simp

lemma length_huge_collection:
  assumes "\<forall>x\<in>set xs. length (JSON_stringify x) \<le> 300" "length xs \<le> 10"
  shows "4194304 < length (JSON_stringify (JArr (huge_record_at 1700000000011 # xs)))"
    and "length (JSON_stringify (JArr (huge_record_at 1700000000011 # xs))) \<le> 4194304 + 3313"
proof -
  define small where "small = MealRecord (show_int 1700000000011) 1700000000011 [] sample_result snack"
  have eq: "length (JSON_stringify (JArr (huge_record_at 1700000000011 # xs))) + 2 =
            4194306 + length (JSON_stringify (JArr (small # xs)))"
    using length_record_image[of "show_int 1700000000011" 1700000000011 huge_image sample_result snack xs]
    by (simp add: huge_record_at_def small_def length_quote_huge_image length_quote_empty)
  have lo: "1 \<le> length (JSON_stringify (JArr (small # xs)))" by (rule stringify_length)
  have "\<forall>x\<in>set (small # xs). length (JSON_stringify x) \<le> 300"
    using assms(1) length_imageless_record by (simp add: small_def)
  then have "length (JSON_stringify (JArr (small # xs))) \<le> 2 + length (small # xs) * (300 + 1)"
    by (rule length_stringify_array_le)
  with assms(2) have hi: "length (JSON_stringify (JArr (small # xs))) \<le> 3313" by simp
  from eq lo show "4194304 < length (JSON_stringify (JArr (huge_record_at 1700000000011 # xs)))"
    by linarith
  from eq hi show "length (JSON_stringify (JArr (huge_record_at 1700000000011 # xs))) \<le> 4194304 + 3313"
    by linarith
qed

text \<open>
  The sample save of an image of 4 MiB into the history of ten records: the new
  collection has eleven records and is over the budget, and its first ten records fit
  the quota.
\<close>

lemma huge_into_ten_updated:
  "huge_record_at 1700000000011 # ten_records =
     take 20 (MealRecord (show_int 1700000000011) 1700000000011 huge_image sample_result snack # ten_records)"
  by (simp add: huge_record_at_def ten_records_length)

lemma huge_into_ten_over_budget:
  "4194304 < length (JSON_stringify (JArr (huge_record_at 1700000000011 # ten_records)))"
  using ten_records_small by (intro length_huge_collection(1)) (simp_all add: ten_records_length)

lemma huge_into_ten_fits:
  "length ''mealHistory'' +
     length (JSON_stringify (JArr (take 10 (huge_record_at 1700000000011 # ten_records))))
   \<le> quota storage_of_ten"
proof -
  have "\<forall>x\<in>set (take 9 ten_records). length (JSON_stringify x) \<le> 300"
    using ten_records_small set_take_subset by fastforce
  then have "length (JSON_stringify (JArr (huge_record_at 1700000000011 # take 9 ten_records)))
               \<le> 4194304 + 3313"
    by (intro length_huge_collection(2)) simp_all
  then show ?thesis by (simp add: storage_of_ten_def)
qed

text \<open>
  C7, as the code has it. When the stored history parses as an array and the new
  collection (the record prepended, cut to 20) serializes to more than 4 MiB of
  characters, the save writes the first ten records of that collection, provided the
  storage accepts the write. What is written is not measured again.
\<close>

theorem oversized_save_keeps_ten:
  "JSON_parse (or_default (getItem st ''mealHistory'') ''[]'') = Inr (JArr existing) \<and>
   compressImage br img 200 0.7 = Inr storageImage \<and>
   updated = take 20 (MealRecord (show_int now_id) now_ts storageImage result mt # existing) \<and>
   4 * 1024 * 1024 < length (JSON_stringify (JArr updated)) \<and>
   length ''mealHistory'' + length (JSON_stringify (JArr (take 10 updated))) \<le> quota st
   \<longrightarrow> saveMealRecord br now_id now_ts st img result mt =
         Inr (st\<lparr>items := (items st)(''mealHistory'' \<mapsto> JSON_stringify (JArr (take 10 updated)))\<rparr>)
       \<and> length (take 10 updated) \<le> 10"
proof (intro impI conjI)
  assume a: "JSON_parse (or_default (getItem st ''mealHistory'') ''[]'') = Inr (JArr existing) \<and>
   compressImage br img 200 0.7 = Inr storageImage \<and>
   updated = take 20 (MealRecord (show_int now_id) now_ts storageImage result mt # existing) \<and>
   4 * 1024 * 1024 < length (JSON_stringify (JArr updated)) \<and>
   length ''mealHistory'' + length (JSON_stringify (JArr (take 10 updated))) \<le> quota st"
  then have big: "4194304 < length (JSON_stringify (JArr updated))" by linarith
  from a big show "saveMealRecord br now_id now_ts st img result mt =
         Inr (st\<lparr>items := (items st)(''mealHistory'' \<mapsto> JSON_stringify (JArr (take 10 updated)))\<rparr>)"
    by (intro saveMealRecord_over_budget[of st existing br img storageImage updated now_id now_ts result mt]) blast+
  show "length (take 10 updated) \<le> 10" by simp
qed

theorem oversized_save_keeps_ten_witness:
  "JSON_parse (or_default (getItem storage_of_ten ''mealHistory'') ''[]'') = Inr (JArr ten_records)
   \<and> compressImage no_decoder huge_image 200 0.7 = Inr huge_image
   \<and> length (huge_record_at 1700000000011 # ten_records) = 11
   \<and> 4 * 1024 * 1024 < length (JSON_stringify (JArr (huge_record_at 1700000000011 # ten_records)))
   \<and> length ''mealHistory'' +
        length (JSON_stringify (JArr (take 10 (huge_record_at 1700000000011 # ten_records))))
        \<le> quota storage_of_ten
   \<and> saveMealRecord no_decoder 1700000000011 1700000000011 storage_of_ten huge_image sample_result snack =
       Inr (storage_of_ten\<lparr>items := (items storage_of_ten)(''mealHistory'' \<mapsto>
              JSON_stringify (JArr (take 10 (huge_record_at 1700000000011 # ten_records))))\<rparr>)
   \<and> length (take 10 (huge_record_at 1700000000011 # ten_records)) = 10"
proof -
  have big: "4 * 1024 * 1024 < length (JSON_stringify (JArr (huge_record_at 1700000000011 # ten_records)))"
    using huge_into_ten_over_budget by simp
  have len: "length (huge_record_at 1700000000011 # ten_records) = 11"
    by (simp add: ten_records_length)
  have len': "length (take 10 (huge_record_at 1700000000011 # ten_records)) = 10"
    by (simp add: ten_records_length)
  have "saveMealRecord no_decoder 1700000000011 1700000000011 storage_of_ten huge_image sample_result snack =
       Inr (storage_of_ten\<lparr>items := (items storage_of_ten)(''mealHistory'' \<mapsto>
              JSON_stringify (JArr (take 10 (huge_record_at 1700000000011 # ten_records))))\<rparr>)"
    using oversized_save_keeps_ten[of storage_of_ten ten_records no_decoder huge_image huge_image
        "huge_record_at 1700000000011 # ten_records" 1700000000011 1700000000011 sample_result snack]
      storage_of_ten_parses compress_huge huge_into_ten_updated big huge_into_ten_fits
    by blast
  with storage_of_ten_parses compress_huge len big huge_into_ten_fits len' show ?thesis by blast
qed

text \<open>
  C7 as stated fails: a first save whose image of 4 MiB cannot be decoded, and is
  therefore stored as it is, persists a collection of one record whose serialization
  has 4194582 characters, above the budget of 4194304.
\<close>

theorem oversized_save_stays_over_budget_counterexample:
  "saveMealRecord no_decoder 1700000000000 1700000000000 empty_storage huge_image sample_result snack =
       Inr (empty_storage\<lparr>items := (items empty_storage)(''mealHistory'' \<mapsto> JSON_stringify (JArr [huge_record_at 1700000000000]))\<rparr>)
   \<and> length (JSON_stringify (JArr [huge_record_at 1700000000000])) = 4194582
   \<and> \<not> length (JSON_stringify (JArr [huge_record_at 1700000000000])) \<le> 4 * 1024 * 1024"
proof -
  have p: "JSON_parse (or_default (getItem empty_storage ''mealHistory'') ''[]'') = Inr (JArr [])"
    by (simp add: empty_storage_def getItem_def or_default_def falsy_def parse_empty_array)
  have c: "compressImage no_decoder huge_image 200 0.7 = Inr huge_image"
    by (simp add: compressImage_def no_decoder_def)
  have u: "[huge_record_at 1700000000000] = take 20 (MealRecord (show_int 1700000000000) 1700000000000 huge_image sample_result snack # [])"
    by (simp add: huge_record_at_def)
  have "saveMealRecord no_decoder 1700000000000 1700000000000 empty_storage huge_image sample_result snack =
       Inr (empty_storage\<lparr>items := (items empty_storage)(''mealHistory'' \<mapsto> JSON_stringify (JArr (take 10 [huge_record_at 1700000000000])))\<rparr>)"
    by (rule saveMealRecord_over_budget[OF p c u]) (simp_all add: length_huge_record empty_storage_def)
  then show ?thesis by (simp add: length_huge_record)
qed

subsection \<open>Runs of saves, and the store of app.tsx\<close>

lemma save_huge_into_ten:
  "saveMealRecord no_decoder 1700000000011 1700000000011 storage_of_ten huge_image sample_result snack =
     Inr (storage_of_ten\<lparr>items := (items storage_of_ten)(''mealHistory'' \<mapsto>
            JSON_stringify (JArr (huge_record_at 1700000000011 # take 9 ten_records)))\<rparr>)"
proof -
  have t: "take 10 (huge_record_at 1700000000011 # ten_records) = huge_record_at 1700000000011 # take 9 ten_records"
    by simp
  show ?thesis
    using saveMealRecord_over_budget[OF storage_of_ten_parses compress_huge huge_into_ten_updated
        huge_into_ten_over_budget huge_into_ten_fits]
    unfolding t .
qed

lemma save_all_storable:
  "JSON_parse (or_default (getItem st ''mealHistory'') ''[]'') = Inr (JArr c0) \<Longrightarrow>
   length c0 \<le> 20 \<Longrightarrow>
   (\<forall>k. 1 \<le> k \<and> k \<le> length args \<longrightarrow>
        storable (quota st) (take 20 (rev (map (record_of br) (take k args)) @ c0))) \<Longrightarrow>
   \<exists>st'. save_all br st args = Inr st' \<and>
         JSON_parse (or_default (getItem st' ''mealHistory'') ''[]'') =
           Inr (JArr (take 20 (rev (map (record_of br) args) @ c0)))"
proof (induction args arbitrary: st c0)
  case Nil
  then show ?case by simp
next
  case (Cons a args)
  obtain now_id now_ts img result mt where a: "a = (now_id, now_ts, img, result, mt)"
    by (cases a)
  obtain storageImage where ci: "compressImage br img 200 0.7 = Inr storageImage"
    using compressImage_total by blast
  let ?r = "MealRecord (show_int now_id) now_ts storageImage result mt"
  let ?c1 = "take 20 (?r # c0)"
  have r: "record_of br a = ?r" using ci by (simp add: a)
  have "storable (quota st) (take 20 (rev (map (record_of br) (take 1 (a # args))) @ c0))"
    using Cons.prems(3) by (intro Cons.prems(3)[rule_format]) simp
  then have s1: "storable (quota st) ?c1" by (simp add: r)
  let ?st1 = "st\<lparr>items := (items st)(''mealHistory'' \<mapsto> JSON_stringify (JArr ?c1))\<rparr>"
  have save: "saveMealRecord br now_id now_ts st img result mt = Inr ?st1"
    using s1 by (intro saveMealRecord_within_budget[OF Cons.prems(1) ci refl]) (simp_all add: storable_def)
  have readback: "JSON_parse (JSON_stringify (JArr ?c1)) = Inr (JArr ?c1)"
    using s1 by (simp add: storable_def)
  have p1: "JSON_parse (or_default (getItem ?st1 ''mealHistory'') ''[]'') = Inr (JArr ?c1)"
    using readback by (intro stored_payload_reads) (simp_all add: getItem_def)
  have l1: "length ?c1 \<le> 20" by simp
  have rest: "\<forall>k. 1 \<le> k \<and> k \<le> length args \<longrightarrow>
        storable (quota ?st1) (take 20 (rev (map (record_of br) (take k args)) @ ?c1))"
  proof (intro allI impI)
    fix k assume k: "1 \<le> k \<and> k \<le> length args"
    then have "storable (quota st) (take 20 (rev (map (record_of br) (take (Suc k) (a # args))) @ c0))"
      by (intro Cons.prems(3)[rule_format]) simp
    then have "storable (quota st) (take 20 (rev (map (record_of br) (take k args)) @ ?r # c0))"
      by (simp add: r)
    then show "storable (quota ?st1) (take 20 (rev (map (record_of br) (take k args)) @ ?c1))"
      by (simp only: take_append_take) simp
  qed
  obtain st' where st': "save_all br ?st1 args = Inr st'"
    and p': "JSON_parse (or_default (getItem st' ''mealHistory'') ''[]'') =
           Inr (JArr (take 20 (rev (map (record_of br) args) @ ?c1)))"
    using Cons.IH[OF p1 l1 rest] by blast
  have "take 20 (rev (map (record_of br) args) @ ?c1) = take 20 (rev (map (record_of br) (a # args)) @ c0)"
    by (simp only: take_append_take) (simp add: r)
  with st' p' save show ?case by (simp add: a)
qed

lemma run_of_saves:
  assumes "JSON_parse (or_default (getItem st ''mealHistory'') ''[]'') = Inr (JArr c0)"
    and "length c0 \<le> 20"
    and "list_all (\<lambda>k. storable (quota st) (take 20 (rev (map (record_of br) (take k args)) @ c0)))
           [1..<Suc (length args)]"
  shows "load_after_saves br st args = Inr (JArr (take 20 (rev (map (record_of br) args) @ c0)))"
proof -
  have "\<forall>k. 1 \<le> k \<and> k \<le> length args \<longrightarrow>
        storable (quota st) (take 20 (rev (map (record_of br) (take k args)) @ c0))"
  proof (intro allI impI)
    fix k assume "1 \<le> k \<and> k \<le> length args"
    then have "k \<in> set [1..<Suc (length args)]" by auto
    with assms(3) show "storable (quota st) (take 20 (rev (map (record_of br) (take k args)) @ c0))"
      unfolding list_all_iff by blast
  qed
  then obtain st' where "save_all br st args = Inr st'"
    and "JSON_parse (or_default (getItem st' ''mealHistory'') ''[]'') =
           Inr (JArr (take 20 (rev (map (record_of br) args) @ c0)))"
    using save_all_storable[OF assms(1,2)] by blast
  then show ?thesis by (simp add: load_after_saves_def getMealHistory_def)
qed

lemma save_over_budget_loads_ten:
  assumes "JSON_parse (or_default (getItem st ''mealHistory'') ''[]'') = Inr (JArr c0)"
    and "updated = take 20 (record_of br arg # c0)"
    and "4 * 1024 * 1024 < length (JSON_stringify (JArr updated))"
    and "length ''mealHistory'' + length (JSON_stringify (JArr (take 10 updated))) \<le> quota st"
    and "JSON_parse (JSON_stringify (JArr (take 10 updated))) = Inr (JArr (take 10 updated))"
  shows "load_after_saves br st [arg] = Inr (JArr (take 10 updated))"
proof -
  obtain now_id now_ts img result mt where a: "arg = (now_id, now_ts, img, result, mt)"
    by (cases arg)
  obtain storageImage where ci: "compressImage br img 200 0.7 = Inr storageImage"
    using compressImage_total by blast
  have u: "updated = take 20 (MealRecord (show_int now_id) now_ts storageImage result mt # c0)"
    using assms(2) ci by (simp add: a)
  have big: "4194304 < length (JSON_stringify (JArr updated))" using assms(3) by simp
  let ?st1 = "st\<lparr>items := (items st)(''mealHistory'' \<mapsto> JSON_stringify (JArr (take 10 updated)))\<rparr>"
  have save: "saveMealRecord br now_id now_ts st img result mt = Inr ?st1"
    by (rule saveMealRecord_over_budget[OF assms(1) ci u big assms(4)])
  have "JSON_parse (or_default (getItem ?st1 ''mealHistory'') ''[]'') = Inr (JArr (take 10 updated))"
    using assms(5) by (intro stored_payload_reads) (simp_all add: getItem_def)
  then have "getMealHistory ?st1 = Inr (JArr (take 10 updated))" by (rule getMealHistory_reads)
  with save show ?thesis by (simp add: load_after_saves_def a)
qed

lemma handleSaveRecord_records:
  "\<not> falsy (analysisImage s) \<Longrightarrow>
     records (handleSaveRecord now_id now_ts s result) =
       records s @ [newRecord now_id now_ts (the (analysisImage s)) result]"
  by (simp add: handleSaveRecord_def Let_def)

lemma handleSaveRecord_storage:
  "\<not> falsy (analysisImage s) \<Longrightarrow>
     localStorage (handleSaveRecord now_id now_ts s result) =
       saveData (localStorage s) (records s @ [newRecord now_id now_ts (the (analysisImage s)) result])"
  by (simp add: handleSaveRecord_def Let_def)

lemma saveData_accepted:
  "length STORAGE_KEY + length (JSON_stringify (JArr rs)) \<le> quota st
     \<Longrightarrow> getItem (saveData st rs) STORAGE_KEY = Some (JSON_stringify (JArr rs))"
  by (simp add: saveData_def setItem_def getItem_def)

lemma saveData_refused:
  "quota st < length STORAGE_KEY + length (JSON_stringify (JArr rs)) \<Longrightarrow> saveData st rs = st"
  by (simp add: saveData_def setItem_def)

text \<open>
  C2, as the code has it. In the store of index.tsx, starting from a stored history that
  parses as an array of at most 20 records, a run of saves in which every intermediate
  collection (each new record prepended, the result cut to 20) is storable, persists
  exactly that collection at the end: \<open>getMealHistory\<close> returns the 20 most
  recent records of the saved ones followed by the old ones, most recent first. A single
  save is the run of length one. A save into a stored history that parses as an array,
  whose new collection serializes to more than 4 MiB of characters, leaves the first ten
  records of it instead, provided the storage accepts them and they are read back as
  written. In the store of app.tsx, \<open>handleSaveRecord\<close> puts the new record at
  the end of the list kept in the state and cuts nothing; what \<open>loadData\<close>
  returns afterwards is that list when the storage accepts the write and it is read back
  as written, while a write that the storage refuses leaves the storage as it was.
\<close>

theorem saves_keep_most_recent:
  "(JSON_parse (or_default (getItem st ''mealHistory'') ''[]'') = Inr (JArr c0) \<and>
    length c0 \<le> 20 \<and>
    list_all (\<lambda>k. storable (quota st) (take 20 (rev (map (record_of br) (take k args)) @ c0)))
      [1..<Suc (length args)]
      \<longrightarrow> load_after_saves br st args =
            Inr (JArr (take 20 (rev (map (record_of br) args) @ c0))))
   \<and> (JSON_parse (or_default (getItem st ''mealHistory'') ''[]'') = Inr (JArr c0) \<and>
      updated = take 20 (record_of br arg # c0) \<and>
      4 * 1024 * 1024 < length (JSON_stringify (JArr updated)) \<and>
      length ''mealHistory'' + length (JSON_stringify (JArr (take 10 updated))) \<le> quota st \<and>
      JSON_parse (JSON_stringify (JArr (take 10 updated))) = Inr (JArr (take 10 updated))
      \<longrightarrow> load_after_saves br st [arg] = Inr (JArr (take 10 updated)))
   \<and> (\<not> falsy (analysisImage s) \<and>
      appended = records s @ [newRecord now_id now_ts (the (analysisImage s)) result]
      \<longrightarrow> records (handleSaveRecord now_id now_ts s result) = appended \<and>
          (length STORAGE_KEY + length (JSON_stringify (JArr appended)) \<le> quota (localStorage s) \<and>
           JSON_parse (JSON_stringify (JArr appended)) = Inr (JArr appended)
             \<longrightarrow> loadData (localStorage (handleSaveRecord now_id now_ts s result)) =
                   Inr (JArr appended)) \<and>
          (quota (localStorage s) < length STORAGE_KEY + length (JSON_stringify (JArr appended))
             \<longrightarrow> localStorage (handleSaveRecord now_id now_ts s result) = localStorage s))"
proof (intro conjI impI)
  assume "JSON_parse (or_default (getItem st ''mealHistory'') ''[]'') = Inr (JArr c0) \<and>
    length c0 \<le> 20 \<and>
    list_all (\<lambda>k. storable (quota st) (take 20 (rev (map (record_of br) (take k args)) @ c0)))
      [1..<Suc (length args)]"
  then show "load_after_saves br st args =
            Inr (JArr (take 20 (rev (map (record_of br) args) @ c0)))"
    by (intro run_of_saves) blast+
next
  assume "JSON_parse (or_default (getItem st ''mealHistory'') ''[]'') = Inr (JArr c0) \<and>
      updated = take 20 (record_of br arg # c0) \<and>
      4 * 1024 * 1024 < length (JSON_stringify (JArr updated)) \<and>
      length ''mealHistory'' + length (JSON_stringify (JArr (take 10 updated))) \<le> quota st \<and>
      JSON_parse (JSON_stringify (JArr (take 10 updated))) = Inr (JArr (take 10 updated))"
  then show "load_after_saves br st [arg] = Inr (JArr (take 10 updated))"
    by (intro save_over_budget_loads_ten[of st c0]) blast+
next
  assume "\<not> falsy (analysisImage s) \<and>
      appended = records s @ [newRecord now_id now_ts (the (analysisImage s)) result]"
  then show "records (handleSaveRecord now_id now_ts s result) = appended"
    by (simp add: handleSaveRecord_records)
next
  assume a: "\<not> falsy (analysisImage s) \<and>
      appended = records s @ [newRecord now_id now_ts (the (analysisImage s)) result]"
    and b: "length STORAGE_KEY + length (JSON_stringify (JArr appended)) \<le> quota (localStorage s) \<and>
           JSON_parse (JSON_stringify (JArr appended)) = Inr (JArr appended)"
  have "getItem (localStorage (handleSaveRecord now_id now_ts s result)) STORAGE_KEY =
          Some (JSON_stringify (JArr appended))"
    using a b by (simp add: handleSaveRecord_storage saveData_accepted)
  with b show "loadData (localStorage (handleSaveRecord now_id now_ts s result)) =
                 Inr (JArr appended)"
    by (intro loadData_reads) blast+
next
  assume a: "\<not> falsy (analysisImage s) \<and>
      appended = records s @ [newRecord now_id now_ts (the (analysisImage s)) result]"
    and c: "quota (localStorage s) < length STORAGE_KEY + length (JSON_stringify (JArr appended))"
  then show "localStorage (handleSaveRecord now_id now_ts s result) = localStorage s"
    by (simp add: handleSaveRecord_storage saveData_refused)
qed

lemma sample_collections_storable:
  "storable 5242880 (take 20 (rev (map (record_of no_decoder) (take k (map sample_save sample_times))) @ []))"
proof -
  define c where "c = take 20 (rev (map (record_of no_decoder) (take k (map sample_save sample_times))) @ [])"
  have small: "\<forall>x\<in>set c. length (JSON_stringify x) \<le> 300"
    unfolding c_def using sample_records_small by blast
  have len: "length c \<le> 20" unfolding c_def by simp
  have "length (JSON_stringify (JArr c)) \<le> 2 + length c * (300 + 1)"
    using small by (rule length_stringify_array_le)
  with len have "length (JSON_stringify (JArr c)) \<le> 6022" by simp
  then have "storable 5242880 c" by (simp add: storable_def JSON_roundtrip)
  then show ?thesis unfolding c_def .
qed

lemma app_record_length: "length (JSON_stringify (app_record 1700000000001)) \<le> 300 \<and>
   length (JSON_stringify (app_record 1700000000002)) \<le> 300"
  by code_simp

lemma app_record_least_length: "20 < length (JSON_stringify (app_record 1700000000001))"
  by code_simp

lemma newRecord_sample: "newRecord t t ''QUJD'' sample_result = app_record t"
  by (simp add: newRecord_def own_properties_def sample_result_def app_record_def)

lemma one_app_record_length:
  "length (JSON_stringify (JArr [app_record 1700000000001])) \<le> 303
   \<and> 20 < length (JSON_stringify (JArr [app_record 1700000000001]))"
proof -
  have "length (JSON_stringify (JArr [app_record 1700000000001])) =
        2 + length (JSON_stringify (app_record 1700000000001))"
    by (simp add: JSON_stringify.simps(5))
  with app_record_length app_record_least_length show ?thesis by linarith
qed

theorem saves_keep_most_recent_witness:
  "JSON_parse (or_default (getItem empty_storage ''mealHistory'') ''[]'') = Inr (JArr [])
   \<and> list_all (\<lambda>k. storable (quota empty_storage)
                 (take 20 (rev (map (record_of no_decoder) (take k (map sample_save sample_times))) @ [])))
        [1..<Suc (length (map sample_save sample_times))]
   \<and> length sample_times = 21
   \<and> load_after_saves no_decoder empty_storage (map sample_save sample_times) =
       Inr (JArr (map sample_record (take 20 (rev sample_times))))
   \<and> JSON_parse (or_default (getItem storage_of_ten ''mealHistory'') ''[]'') = Inr (JArr ten_records)
   \<and> length (huge_record_at 1700000000011 # ten_records) = 11
   \<and> 4 * 1024 * 1024 < length (JSON_stringify (JArr (huge_record_at 1700000000011 # ten_records)))
   \<and> load_after_saves no_decoder storage_of_ten
        [(1700000000011, 1700000000011, huge_image, sample_result, snack)] =
       Inr (JArr (take 10 (huge_record_at 1700000000011 # ten_records)))
   \<and> \<not> falsy (analysisImage app_start)
   \<and> records (handleSaveRecord 1700000000001 1700000000001 app_start sample_result) =
       [app_record 1700000000001]
   \<and> loadData (localStorage (handleSaveRecord 1700000000001 1700000000001 app_start sample_result)) =
       Inr (JArr [app_record 1700000000001])
   \<and> quota (localStorage app_without_room) <
       length STORAGE_KEY + length (JSON_stringify (JArr [app_record 1700000000001]))
   \<and> records (handleSaveRecord 1700000000001 1700000000001 app_without_room sample_result) =
       [app_record 1700000000001]
   \<and> localStorage (handleSaveRecord 1700000000001 1700000000001 app_without_room sample_result) =
       localStorage app_without_room
   \<and> loadData (localStorage (handleSaveRecord 1700000000001 1700000000001 app_without_room sample_result)) =
       Inr (JArr [])"
proof -
  have p: "JSON_parse (or_default (getItem empty_storage ''mealHistory'') ''[]'') = Inr (JArr [])"
    by (simp add: empty_storage_def getItem_def or_default_def falsy_def parse_empty_array)
  have q: "quota empty_storage = 5242880" by (simp add: empty_storage_def)
  have s: "list_all (\<lambda>k. storable (quota empty_storage)
                 (take 20 (rev (map (record_of no_decoder) (take k (map sample_save sample_times))) @ [])))
        [1..<Suc (length (map sample_save sample_times))]"
    unfolding q list_all_iff using sample_collections_storable by blast
  have r: "take 20 (rev (map (record_of no_decoder) (map sample_save sample_times)) @ []) =
           map sample_record (take 20 (rev sample_times))"
    by (simp add: comp_def record_of_sample rev_map take_map)
  have "load_after_saves no_decoder empty_storage (map sample_save sample_times) =
        Inr (JArr (take 20 (rev (map (record_of no_decoder) (map sample_save sample_times)) @ [])))"
    using saves_keep_most_recent[where st = empty_storage and ?c0.0 = "[]" and br = no_decoder
        and args = "map sample_save sample_times", THEN conjunct1] p s
    by simp
  then have run: "load_after_saves no_decoder empty_storage (map sample_save sample_times) =
       Inr (JArr (map sample_record (take 20 (rev sample_times))))"
    unfolding r .
  have rec: "huge_record_at 1700000000011 # ten_records =
             take 20 (record_of no_decoder (1700000000011, 1700000000011, huge_image, sample_result, snack)
                      # ten_records)"
    using huge_into_ten_updated by (simp add: compress_huge)
  have big: "4 * 1024 * 1024 < length (JSON_stringify (JArr (huge_record_at 1700000000011 # ten_records)))"
    using huge_into_ten_over_budget by simp
  have len: "length (huge_record_at 1700000000011 # ten_records) = 11"
    by (simp add: ten_records_length)
  have readback: "JSON_parse (JSON_stringify (JArr (take 10 (huge_record_at 1700000000011 # ten_records)))) =
              Inr (JArr (take 10 (huge_record_at 1700000000011 # ten_records)))"
    by (rule JSON_roundtrip)
  have over: "load_after_saves no_decoder storage_of_ten
        [(1700000000011, 1700000000011, huge_image, sample_result, snack)] =
       Inr (JArr (take 10 (huge_record_at 1700000000011 # ten_records)))"
    using saves_keep_most_recent[where st = storage_of_ten and ?c0.0 = ten_records and br = no_decoder
        and updated = "huge_record_at 1700000000011 # ten_records"
        and arg = "(1700000000011, 1700000000011, huge_image, sample_result, snack)",
        THEN conjunct2, THEN conjunct1]
      storage_of_ten_parses rec big huge_into_ten_fits readback
    by blast
  have img: "\<not> falsy (analysisImage app_start)" "the (analysisImage app_start) = ''QUJD''"
    "records app_start = []" "localStorage app_start = empty_storage"
    by (simp_all add: app_start_def falsy_def)
  have app1: "[app_record 1700000000001] =
              records app_start @ [newRecord 1700000000001 1700000000001 (the (analysisImage app_start)) sample_result]"
    by (simp add: img newRecord_sample)
  have fit: "length STORAGE_KEY + length (JSON_stringify (JArr [app_record 1700000000001]))
               \<le> quota (localStorage app_start)"
    using one_app_record_length by (simp add: img empty_storage_def STORAGE_KEY_def)
  have readback1: "JSON_parse (JSON_stringify (JArr [app_record 1700000000001])) =
               Inr (JArr [app_record 1700000000001])"
    by (rule JSON_roundtrip)
  have kept: "records (handleSaveRecord 1700000000001 1700000000001 app_start sample_result) =
                [app_record 1700000000001]
              \<and> loadData (localStorage (handleSaveRecord 1700000000001 1700000000001 app_start sample_result)) =
                Inr (JArr [app_record 1700000000001])"
    using saves_keep_most_recent[where s = app_start and appended = "[app_record 1700000000001]"
        and now_id = 1700000000001 and now_ts = 1700000000001 and result = sample_result,
        THEN conjunct2, THEN conjunct2]
      img(1) app1 fit readback1
    by blast
  have img': "\<not> falsy (analysisImage app_without_room)" "the (analysisImage app_without_room) = ''QUJD''"
    "records app_without_room = []" "quota (localStorage app_without_room) = 20"
    "getItem (localStorage app_without_room) STORAGE_KEY = None"
    by (simp_all add: app_without_room_def falsy_def getItem_def)
  have app2: "[app_record 1700000000001] =
              records app_without_room @
                [newRecord 1700000000001 1700000000001 (the (analysisImage app_without_room)) sample_result]"
    by (simp add: img' newRecord_sample)
  have full: "quota (localStorage app_without_room) <
                length STORAGE_KEY + length (JSON_stringify (JArr [app_record 1700000000001]))"
    using one_app_record_length by (simp add: img')
  have lost: "records (handleSaveRecord 1700000000001 1700000000001 app_without_room sample_result) =
                [app_record 1700000000001]
              \<and> localStorage (handleSaveRecord 1700000000001 1700000000001 app_without_room sample_result) =
                localStorage app_without_room"
    using saves_keep_most_recent[where s = app_without_room and appended = "[app_record 1700000000001]"
        and now_id = 1700000000001 and now_ts = 1700000000001 and result = sample_result,
        THEN conjunct2, THEN conjunct2]
      img'(1) app2 full
    by blast
  then have empty: "loadData (localStorage (handleSaveRecord 1700000000001 1700000000001
                      app_without_room sample_result)) = Inr (JArr [])"
    using img'(5) by (simp add: loadData_absent)
  from p s run storage_of_ten_parses len big over img(1) kept full lost empty show ?thesis
    by (simp only: sample_times_length) blast
qed

text \<open>
  C2 as stated fails. In index.tsx, a save into a history of ten records whose new
  collection exceeds 4 MiB keeps ten records, not the eleven that prepending and cutting
  to 20 would give: the oldest record is dropped. In app.tsx, \<open>handleSaveRecord\<close>
  appends: after two saves the most recent record is the last one, in the state and
  in what \<open>loadData\<close> returns.
\<close>

theorem save_does_not_keep_twenty_counterexample:
  "length ten_records = 10
   \<and> load_after_saves no_decoder storage_of_ten
        [(1700000000011, 1700000000011, huge_image, sample_result, snack)] =
       Inr (JArr (huge_record_at 1700000000011 # take 9 ten_records))
   \<and> huge_record_at 1700000000011 # take 9 ten_records \<noteq>
       take 20 (huge_record_at 1700000000011 # ten_records)
   \<and> records (handleSaveRecord 1700000000002 1700000000002
        ((handleSaveRecord 1700000000001 1700000000001 app_start sample_result)
           \<lparr>analysisImage := Some ''QUJD''\<rparr>) sample_result) =
       [app_record 1700000000001, app_record 1700000000002]
   \<and> loadData (localStorage (handleSaveRecord 1700000000002 1700000000002
        ((handleSaveRecord 1700000000001 1700000000001 app_start sample_result)
           \<lparr>analysisImage := Some ''QUJD''\<rparr>) sample_result)) =
       Inr (JArr [app_record 1700000000001, app_record 1700000000002])"
proof -
  have a: "load_after_saves no_decoder storage_of_ten
        [(1700000000011, 1700000000011, huge_image, sample_result, snack)] =
       Inr (JArr (huge_record_at 1700000000011 # take 9 ten_records))"
    by (simp add: load_after_saves_def save_huge_into_ten)
      (rule getMealHistory_stored, simp add: getItem_def)
  have "length (huge_record_at 1700000000011 # take 9 ten_records) = 10"
    by (simp add: ten_records_length)
  moreover have "length (take 20 (huge_record_at 1700000000011 # ten_records)) = 11"
    by (simp add: ten_records_length)
  ultimately have b: "huge_record_at 1700000000011 # take 9 ten_records \<noteq>
       take 20 (huge_record_at 1700000000011 # ten_records)"
    by auto
  let ?s1 = "handleSaveRecord 1700000000001 1700000000001 app_start sample_result"
  have l1: "length (JSON_stringify (JArr [app_record 1700000000001])) \<le> 2 + length [app_record 1700000000001] * (300 + 1)"
    using app_record_length by (intro length_stringify_array_le) simp
  have r1: "records ?s1 = [app_record 1700000000001]"
    by (simp add: handleSaveRecord_def app_start_def falsy_def newRecord_sample Let_def)
  have st1: "localStorage ?s1 = empty_storage\<lparr>items := (items empty_storage)(STORAGE_KEY \<mapsto>
               JSON_stringify (JArr [app_record 1700000000001]))\<rparr>"
    using l1
    by (simp add: handleSaveRecord_def app_start_def falsy_def newRecord_sample Let_def
          saveData_def setItem_def empty_storage_def STORAGE_KEY_def)
  let ?s2 = "handleSaveRecord 1700000000002 1700000000002 (?s1\<lparr>analysisImage := Some ''QUJD''\<rparr>) sample_result"
  have l2: "length (JSON_stringify (JArr [app_record 1700000000001, app_record 1700000000002]))
              \<le> 2 + length [app_record 1700000000001, app_record 1700000000002] * (300 + 1)"
    using app_record_length by (intro length_stringify_array_le) simp
  have r2: "records ?s2 = [app_record 1700000000001, app_record 1700000000002]"
    by (simp add: handleSaveRecord_def[of _ _ "?s1\<lparr>analysisImage := Some ''QUJD''\<rparr>"] r1 falsy_def newRecord_sample Let_def)
  have st2: "getItem (localStorage ?s2) STORAGE_KEY =
               Some (JSON_stringify (JArr [app_record 1700000000001, app_record 1700000000002]))"
    using l2
    by (simp add: handleSaveRecord_def[of _ _ "?s1\<lparr>analysisImage := Some ''QUJD''\<rparr>"] r1 st1 falsy_def
          newRecord_sample Let_def saveData_def setItem_def empty_storage_def STORAGE_KEY_def getItem_def)
  have c: "loadData (localStorage ?s2) = Inr (JArr [app_record 1700000000001, app_record 1700000000002])"
    using st2 by (rule loadData_stored)
  from a b r2 c show ?thesis by (simp only: ten_records_length) simp
qed

end
